theory Spec2Isabelle
  imports
    Main
    "HOL-Library.Word"
    "HOL-Library.Sublist"
    "HOL-Library.Char_ord"
    "HOL-Library.List_Lexorder"
    "HOL-Library.AList"
begin

section \<open>Whiteboard processor: production CLI and evaluation harness\<close>

text \<open>
  A shallow embedding of \<^verbatim>\<open>src/app/process_whiteboard.py\<close> (the production CLI) and
  \<^verbatim>\<open>src/eval/run_eval.py\<close> (the evaluation harness). Python \<^verbatim>\<open>str\<close> is \<^typ>\<open>string\<close>,
  \<^verbatim>\<open>bytes\<close> is a list of 8-bit words, a raised exception is the \<open>Inl\<close> of a sum type.
  Constants that both programs define under one name carry the prefix \<open>app_\<close> or
  \<open>eval_\<close>.
\<close>

type_synonym byte = "8 word"

subsection \<open>Model registries\<close>

text \<open>
  A request payload is a Python dict literal whose values are strings or lists of
  strings; it is kept as an association list in the order of the literal.
\<close>

datatype jval = JStr string | JList "jval list"

type_synonym payload = "(string \<times> jval) list"

record model_config =
  model_id :: string
  input_fn :: "string \<Rightarrow> string \<Rightarrow> payload"

record app_model_config = model_config +
  description :: string

definition app_MODELS :: "(string \<times> app_model_config) list" where
  "app_MODELS =
    [(''nano-banana'',
        \<lparr>model_id = ''google/nano-banana'',
         input_fn = (\<lambda>prompt image_uri.
           [(''prompt'', JStr prompt),
            (''image_input'', JList [JStr image_uri]),
            (''output_format'', JStr ''png'')]),
         description = ''Google Gemini 2.5 Flash - fast, good quality (default)''\<rparr>),
     (''nano-banana-pro'',
        \<lparr>model_id = ''google/nano-banana-pro'',
         input_fn = (\<lambda>prompt image_uri.
           [(''prompt'', JStr prompt),
            (''image_input'', JList [JStr image_uri]),
            (''output_format'', JStr ''png'')]),
         description = ''Google Gemini 3 Pro - highest quality, text rendering''\<rparr>),
     (''flux-kontext-pro'',
        \<lparr>model_id = ''black-forest-labs/flux-kontext-pro'',
         input_fn = (\<lambda>prompt image_uri.
           [(''prompt'', JStr prompt),
            (''input_image'', JStr image_uri),
            (''aspect_ratio'', JStr ''match_input_image''),
            (''output_format'', JStr ''png'')]),
         description = ''FLUX Kontext Pro - strong image editing''\<rparr>),
     (''flux-1.1-pro'',
        \<lparr>model_id = ''black-forest-labs/flux-1.1-pro'',
         input_fn = (\<lambda>prompt image_uri.
           [(''prompt'', JStr prompt),
            (''image_prompt'', JStr image_uri),
            (''aspect_ratio'', JStr ''1:1''),
            (''output_format'', JStr ''png'')]),
         description = ''FLUX 1.1 Pro - composition guidance''\<rparr>),
     (''qwen-image-edit'',
        \<lparr>model_id = ''qwen/qwen-image-edit'',
         input_fn = (\<lambda>prompt image_uri.
           [(''prompt'', JStr prompt),
            (''image'', JStr image_uri),
            (''output_format'', JStr ''png'')]),
         description = ''Qwen Image Edit - precise text editing''\<rparr>),
     (''qwen-image-edit-plus'',
        \<lparr>model_id = ''qwen/qwen-image-edit-plus'',
         input_fn = (\<lambda>prompt image_uri.
           [(''prompt'', JStr prompt),
            (''image'', JList [JStr image_uri]),
            (''output_format'', JStr ''png'')]),
         description = ''Qwen Image Edit Plus - enhanced editing''\<rparr>)]"

definition DEFAULT_MODEL :: string where
  "DEFAULT_MODEL = ''nano-banana''"

definition eval_MODELS :: "(string \<times> model_config) list" where
  "eval_MODELS =
    [(''flux-kontext-pro'',
        \<lparr>model_id = ''black-forest-labs/flux-kontext-pro'',
         input_fn = (\<lambda>prompt image_uri.
           [(''prompt'', JStr prompt),
            (''input_image'', JStr image_uri),
            (''aspect_ratio'', JStr ''match_input_image''),
            (''output_format'', JStr ''png'')])\<rparr>),
     (''flux-1.1-pro'',
        \<lparr>model_id = ''black-forest-labs/flux-1.1-pro'',
         input_fn = (\<lambda>prompt image_uri.
           [(''prompt'', JStr prompt),
            (''image_prompt'', JStr image_uri),
            (''aspect_ratio'', JStr ''1:1''),
            (''output_format'', JStr ''png'')])\<rparr>),
     (''qwen-image-edit'',
        \<lparr>model_id = ''qwen/qwen-image-edit'',
         input_fn = (\<lambda>prompt image_uri.
           [(''prompt'', JStr prompt),
            (''image'', JStr image_uri),
            (''output_format'', JStr ''png'')])\<rparr>),
     (''qwen-image-edit-plus'',
        \<lparr>model_id = ''qwen/qwen-image-edit-plus'',
         input_fn = (\<lambda>prompt image_uri.
           [(''prompt'', JStr prompt),
            (''image'', JList [JStr image_uri]),
            (''output_format'', JStr ''png'')])\<rparr>),
     (''nano-banana'',
        \<lparr>model_id = ''google/nano-banana'',
         input_fn = (\<lambda>prompt image_uri.
           [(''prompt'', JStr prompt),
            (''image_input'', JList [JStr image_uri]),
            (''output_format'', JStr ''png'')])\<rparr>),
     (''nano-banana-pro'',
        \<lparr>model_id = ''google/nano-banana-pro'',
         input_fn = (\<lambda>prompt image_uri.
           [(''prompt'', JStr prompt),
            (''image_input'', JList [JStr image_uri]),
            (''output_format'', JStr ''png'')])\<rparr>)]"

subsection \<open>Provider responses\<close>

text \<open>
  \<^verbatim>\<open>replicate.run\<close> returns a value of no fixed shape. The code probes it with
  \<^verbatim>\<open>is None\<close>, \<^verbatim>\<open>hasattr(_, 'url')\<close>, \<^verbatim>\<open>isinstance(_, str)\<close>,
  \<^verbatim>\<open>hasattr(_, '__iter__')\<close>, iteration, \<^verbatim>\<open>str(_)\<close> and truthiness, so a value
  is modelled by what these probes answer: \<open>PObj\<close> carries the value of the \<^verbatim>\<open>url\<close>
  attribute when there is one, the items iteration yields when the object is iterable,
  its \<^verbatim>\<open>str()\<close> form and its truth value. A \<^verbatim>\<open>FileOutput\<close> is
  \<open>PObj (Some (PStr u)) (Some chunks) u True\<close>, a list is \<open>PObj None (Some items) repr (items \<noteq> [])\<close>.
\<close>

datatype pyval =
    PNone
  | PStr string
  | PObj (obj_url: "pyval option") (obj_iter: "pyval list option") (obj_str: string)
      (obj_truthy: bool)

fun hasattr_url :: "pyval \<Rightarrow> bool" where
  "hasattr_url (PObj (Some u) it s t) = True"
| "hasattr_url v = False"

fun getattr_url :: "pyval \<Rightarrow> pyval" where
  "getattr_url (PObj (Some u) it s t) = u"
| "getattr_url v = PNone"

fun isinstance_str :: "pyval \<Rightarrow> bool" where
  "isinstance_str (PStr s) = True"
| "isinstance_str v = False"

text \<open>\<^verbatim>\<open>str(v)\<close>.\<close>

fun py_str :: "pyval \<Rightarrow> string" where
  "py_str PNone = ''None''"
| "py_str (PStr s) = s"
| "py_str (PObj u it s t) = s"

text \<open>
  \<^verbatim>\<open>hasattr(v, '__iter__')\<close> and the items of \<^verbatim>\<open>for item in v\<close>: a string is
  iterable and yields its characters as one-character strings.
\<close>

fun py_iter :: "pyval \<Rightarrow> pyval list option" where
  "py_iter PNone = None"
| "py_iter (PStr s) = Some (map (\<lambda>c. PStr [c]) s)"
| "py_iter (PObj u it s t) = it"

text \<open>Truthiness, as \<^verbatim>\<open>if output_url:\<close> tests it.\<close>

fun py_truthy :: "pyval \<Rightarrow> bool" where
  "py_truthy PNone = False"
| "py_truthy (PStr s) = (s \<noteq> [])"
| "py_truthy (PObj u it s t) = t"

definition startswith :: "string \<Rightarrow> string \<Rightarrow> bool" where
  "startswith s p = prefix p s"

text \<open>
  The body of \<^verbatim>\<open>for item in output\<close> in \<^verbatim>\<open>get_output_url\<close> and \<^verbatim>\<open>run_model\<close>:
  \<open>Some r\<close> is a \<^verbatim>\<open>return r\<close> from inside the loop, \<open>None\<close> the loop running to its end.
\<close>

fun scan_items :: "pyval list \<Rightarrow> pyval option" where
  "scan_items [] = None"
| "scan_items (item # rest) =
    (if hasattr_url item then Some (getattr_url item)
     else if isinstance_str item \<and> startswith (py_str item) ''http'' then Some item
     else scan_items rest)"

text \<open>The last resort of both functions: \<^verbatim>\<open>str(output)\<close>, kept when it starts with \<^verbatim>\<open>http\<close>.\<close>

definition last_resort :: "pyval \<Rightarrow> pyval" where
  "last_resort output =
    (let output_str = py_str output
     in if startswith output_str ''http'' then PStr output_str else PNone)"

text \<open>\<^verbatim>\<open>get_output_url\<close> of the production CLI; the result \<open>PNone\<close> is Python's \<^verbatim>\<open>None\<close>.\<close>

definition get_output_url :: "pyval \<Rightarrow> pyval" where
  "get_output_url output =
    (if output = PNone then PNone
     else if hasattr_url output then getattr_url output
     else if isinstance_str output \<and> startswith (py_str output) ''http'' then output
     else (case py_iter output of
             Some items \<Rightarrow>
               (case scan_items items of
                  Some r \<Rightarrow> r
                | None \<Rightarrow> last_resort output)
           | None \<Rightarrow> last_resort output))"

text \<open>
  The response handling inside \<^verbatim>\<open>run_model\<close> of the evaluation harness (the lines after
  \<^verbatim>\<open>replicate.run\<close>): a string that does not start with \<^verbatim>\<open>http\<close> returns
  \<^verbatim>\<open>None\<close> at once.
\<close>

definition run_model_url :: "pyval \<Rightarrow> pyval" where
  "run_model_url output =
    (if output = PNone then PNone
     else if hasattr_url output then getattr_url output
     else if isinstance_str output then
       (if startswith (py_str output) ''http'' then output else PNone)
     else (case py_iter output of
             Some items \<Rightarrow>
               (case scan_items items of
                  Some r \<Rightarrow> r
                | None \<Rightarrow> last_resort output)
           | None \<Rightarrow> last_resort output))"

text \<open>What both functions do once the probes of the response itself have failed: the item
  scan when it is iterable, then the last resort.\<close>

definition scan_then_last_resort :: "pyval \<Rightarrow> pyval" where
  "scan_then_last_resort output =
    (case py_iter output of
       Some items \<Rightarrow>
         (case scan_items items of
            Some r \<Rightarrow> r
          | None \<Rightarrow> last_resort output)
     | None \<Rightarrow> last_resort output)"

text \<open>
  The normalisation order as the specification words it. Steps (a) and (b) on one value:
  the \<^verbatim>\<open>url\<close> attribute when the value has one, else the value itself when it is a string
  that begins with \<^verbatim>\<open>http\<close>.
\<close>

definition direct_location :: "pyval \<Rightarrow> pyval option" where
  "direct_location v =
    (if hasattr_url v then Some (getattr_url v)
     else if isinstance_str v \<and> startswith (py_str v) ''http'' then Some v
     else None)"

text \<open>Step (c): the first item of an iterable response for which (a) or (b) succeeds.\<close>

definition first_matching_item :: "pyval \<Rightarrow> pyval option" where
  "first_matching_item r =
    (case py_iter r of
       None \<Rightarrow> None
     | Some items \<Rightarrow> find (\<lambda>i. direct_location i \<noteq> None) items)"

text \<open>Steps (a) to (e) in order, the first success returned.\<close>

definition normalize_spec :: "pyval \<Rightarrow> pyval" where
  "normalize_spec r =
    (case direct_location r of
       Some l \<Rightarrow> l
     | None \<Rightarrow>
        (case first_matching_item r of
           Some i \<Rightarrow> the (direct_location i)
         | None \<Rightarrow>
            if startswith (py_str r) ''http'' then PStr (py_str r) else PNone))"

subsection \<open>Strings, numbers and dates\<close>

text \<open>
  A Python \<^verbatim>\<open>str\<close> is kept as the list of the bytes of its UTF-8 encoding: searching
  for and replacing ASCII characters, slicing at an ASCII character and comparing two
  strings give the same results on the bytes as on the code points. \<^verbatim>\<open>str.lower\<close>
  follows the case tables of the Python runtime, which are not part of this repository:
  every function that calls it takes it as its first parameter, named \<open>lower\<close>, and
  the theorems hold for whatever function that is. The sample runs use
  \<open>ascii_lower\<close>, which agrees with \<^verbatim>\<open>str.lower\<close> on ASCII strings.
\<close>

definition ascii_uppercase :: string where
  "ascii_uppercase = ''ABCDEFGHIJKLMNOPQRSTUVWXYZ''"

definition ascii_lowercase :: string where
  "ascii_lowercase = ''abcdefghijklmnopqrstuvwxyz''"

definition lower_char :: "char \<Rightarrow> char" where
  "lower_char c =
    (case map_of (zip ascii_uppercase ascii_lowercase) c of Some l \<Rightarrow> l | None \<Rightarrow> c)"

definition ascii_lower :: "string \<Rightarrow> string" where
  "ascii_lower s = map lower_char s"

text \<open>The position of the first occurrence of an element.\<close>

fun index_of :: "'a list \<Rightarrow> 'a \<Rightarrow> nat option" where
  "index_of [] x = None"
| "index_of (y # ys) x = (if x = y then Some 0 else map_option Suc (index_of ys x))"

text \<open>\<^verbatim>\<open>s.replace(old, new)\<close> for one-character \<^verbatim>\<open>old\<close> and \<^verbatim>\<open>new\<close>.\<close>

definition replace_char :: "char \<Rightarrow> char \<Rightarrow> string \<Rightarrow> string" where
  "replace_char old new s = map (\<lambda>c. if c = old then new else c) s"

definition digit_char :: "nat \<Rightarrow> char" where
  "digit_char d = ''0123456789'' ! d"

text \<open>The decimal digits of a natural number, as \<^verbatim>\<open>str(n)\<close> prints them.\<close>

fun str_nat :: "nat \<Rightarrow> string" where
  "str_nat n = (if n < 10 then [digit_char n] else str_nat (n div 10) @ [digit_char (n mod 10)])"

declare str_nat.simps [simp del]

definition zfill :: "nat \<Rightarrow> string \<Rightarrow> string" where
  "zfill width s = replicate (width - length s) CHR ''0'' @ s"

text \<open>
  The format specification \<^verbatim>\<open>{index:02d}\<close>: minimum width two, padded with zeros after
  the sign, which counts towards the width.
\<close>

definition format_02d :: "int \<Rightarrow> string" where
  "format_02d i =
    (if i < 0 then CHR ''-'' # zfill 1 (str_nat (nat (- i))) else zfill 2 (str_nat (nat i)))"

text \<open>What \<^verbatim>\<open>datetime.now()\<close> returned, to the second.\<close>

record datetime =
  year :: nat
  month :: nat
  day :: nat
  hour :: nat
  minute :: nat
  second :: nat

text \<open>\<^verbatim>\<open>strftime("%Y%m%d")\<close> and \<^verbatim>\<open>strftime("%Y%m%d-%H%M%S")\<close>.\<close>

definition strftime_Ymd :: "datetime \<Rightarrow> string" where
  "strftime_Ymd now =
    zfill 4 (str_nat (year now)) @ zfill 2 (str_nat (month now)) @ zfill 2 (str_nat (day now))"

definition strftime_Ymd_HMS :: "datetime \<Rightarrow> string" where
  "strftime_Ymd_HMS now =
    strftime_Ymd now @ ''-'' @ zfill 2 (str_nat (hour now)) @ zfill 2 (str_nat (minute now))
      @ zfill 2 (str_nat (second now))"

subsection \<open>Output names\<close>

text \<open>\<^verbatim>\<open>generate_descriptive_name\<close>; the clock reading is a parameter.\<close>

definition generate_descriptive_name ::
    "(string \<Rightarrow> string) \<Rightarrow> datetime \<Rightarrow> string \<Rightarrow> int \<Rightarrow> int \<Rightarrow> string" where
  "generate_descriptive_name lower now folder_name index total_n =
    (let timestamp = strftime_Ymd now;
         clean_name =
           lower (replace_char CHR ''_'' CHR ''-'' (replace_char CHR '' '' CHR ''-'' folder_name))
     in if total_n = 1 then clean_name @ ''-enhanced-'' @ timestamp @ ''.png''
        else clean_name @ ''-'' @ format_02d index @ ''-enhanced-'' @ timestamp @ ''.png'')"

text \<open>
  The normalisation of one character as the specification words it: a space or an
  underscore becomes a hyphen.
\<close>

definition hyphenate :: "char \<Rightarrow> char" where
  "hyphenate c = (if c = CHR '' '' \<or> c = CHR ''_'' then CHR ''-'' else c)"

text \<open>
  Reading a string of decimal digits back as a number; a character that is no digit
  makes the result \<open>None\<close>.
\<close>

definition digit_value :: "char \<Rightarrow> nat option" where
  "digit_value c = index_of ''0123456789'' c"

fun read_digit :: "char \<Rightarrow> nat option \<Rightarrow> nat option" where
  "read_digit c (Some a) = (case digit_value c of Some d \<Rightarrow> Some (10 * a + d) | None \<Rightarrow> None)"
| "read_digit c None = None"

fun digits_value :: "string \<Rightarrow> nat option" where
  "digits_value [] = None"
| "digits_value cs = fold read_digit cs (Some 0)"

subsection \<open>Base64\<close>

text \<open>
  \<^verbatim>\<open>base64.b64encode\<close> and \<^verbatim>\<open>base64.b64decode\<close> of the Python standard library
  (RFC 4648, standard alphabet, padded), on which \<^verbatim>\<open>image_to_data_uri\<close> relies: three
  bytes become four characters, a last group of one or two bytes is padded with
  \<^verbatim>\<open>=\<close>. The decoder accepts padded canonical input only and answers \<open>None\<close> where the
  library raises.
\<close>

definition b64_alphabet :: string where
  "b64_alphabet = ''ABCDEFGHIJKLMNOPQRSTUVWXYZabcdefghijklmnopqrstuvwxyz0123456789+/''"

definition b64_char :: "nat \<Rightarrow> char" where
  "b64_char n = b64_alphabet ! n"

fun b64encode :: "byte list \<Rightarrow> string" where
  "b64encode (a # b # c # rest) =
     b64_char (unat a div 4)
     # b64_char ((unat a mod 4) * 16 + unat b div 16)
     # b64_char ((unat b mod 16) * 4 + unat c div 64)
     # b64_char (unat c mod 64)
     # b64encode rest"
| "b64encode [a, b] =
     [b64_char (unat a div 4),
      b64_char ((unat a mod 4) * 16 + unat b div 16),
      b64_char ((unat b mod 16) * 4),
      CHR ''='']"
| "b64encode [a] =
     [b64_char (unat a div 4), b64_char ((unat a mod 4) * 16), CHR ''='', CHR ''='']"
| "b64encode [] = []"

definition b64_index :: "char \<Rightarrow> nat option" where
  "b64_index c = index_of b64_alphabet c"

fun b64decode :: "string \<Rightarrow> byte list option" where
  "b64decode [] = Some []"
| "b64decode (c0 # c1 # c2 # c3 # rest) =
    (case (b64_index c0, b64_index c1) of
       (Some s0, Some s1) \<Rightarrow>
         (case (b64_index c2, b64_index c3) of
            (Some s2, Some s3) \<Rightarrow>
              map_option
                (\<lambda>bs. of_nat (s0 * 4 + s1 div 16)
                      # of_nat ((s1 mod 16) * 16 + s2 div 4)
                      # of_nat ((s2 mod 4) * 64 + s3) # bs)
                (b64decode rest)
          | (Some s2, None) \<Rightarrow>
              if c3 = CHR ''='' \<and> rest = []
              then Some [of_nat (s0 * 4 + s1 div 16), of_nat ((s1 mod 16) * 16 + s2 div 4)]
              else None
          | (None, _) \<Rightarrow>
              if c2 = CHR ''='' \<and> c3 = CHR ''='' \<and> rest = []
              then Some [of_nat (s0 * 4 + s1 div 16)]
              else None)
     | _ \<Rightarrow> None)"
| "b64decode cs = None"

subsection \<open>The file system\<close>

text \<open>
  The directory tree below the project root: a readable file with its bytes, a file
  that cannot be opened (no permission), or a directory with its entries. A path is the
  list of its components from the root. An entry listed twice in a directory is read at
  its first occurrence.
\<close>

datatype node = File "byte list" | Unreadable | Dir "(string \<times> node) list"

type_synonym path = "string list"

datatype error =
    FileNotFoundError
  | NotADirectoryError
  | IsADirectoryError
  | FileExistsError
  | PermissionError
  | DirectoryNotEmpty
  | InvalidArgument
  | KeyError
  | EOFError
  | SystemExit nat
  | ReplicateError string
  | HTTPError string
  | HTTPStatusError nat
  | OSError string

fun lookup :: "node \<Rightarrow> path \<Rightarrow> node option" where
  "lookup n [] = Some n"
| "lookup (Dir es) (c # p) = (case map_of es c of None \<Rightarrow> None | Some n \<Rightarrow> lookup n p)"
| "lookup n (c # p) = None"

definition exists_path :: "node \<Rightarrow> path \<Rightarrow> bool" where
  "exists_path fs p = (lookup fs p \<noteq> None)"

fun is_dir_node :: "node \<Rightarrow> bool" where
  "is_dir_node (Dir es) = True"
| "is_dir_node n = False"

fun is_file_node :: "node \<Rightarrow> bool" where
  "is_file_node (Dir es) = False"
| "is_file_node n = True"

text \<open>
  Replace (\<open>Some\<close>) or remove (\<open>None\<close>) the entry at a path whose parent is a
  directory; anything else leaves the tree as it is.
\<close>

fun update :: "node \<Rightarrow> path \<Rightarrow> node option \<Rightarrow> node" where
  "update n [] v = (case v of Some n' \<Rightarrow> n' | None \<Rightarrow> n)"
| "update (Dir es) [c] v =
    Dir (case v of Some n' \<Rightarrow> AList.update c n' es | None \<Rightarrow> AList.delete c es)"
| "update (Dir es) (c # p) v =
    (case map_of es c of
       None \<Rightarrow> Dir es
     | Some n \<Rightarrow> Dir (AList.update c (update n p v) es))"
| "update n (c # p) v = n"

text \<open>
  \<^verbatim>\<open>Path.mkdir(parents=True, exist_ok=True)\<close>: every missing directory along the path
  is created; a component that exists and is not a directory raises.
\<close>

fun mkdir_p :: "node \<Rightarrow> path \<Rightarrow> error + node" where
  "mkdir_p (Dir es) [] = Inr (Dir es)"
| "mkdir_p n [] = Inl FileExistsError"
| "mkdir_p (Dir es) (c # p) =
    (case mkdir_p (case map_of es c of None \<Rightarrow> Dir [] | Some n \<Rightarrow> n) p of
       Inl e \<Rightarrow> Inl e
     | Inr n' \<Rightarrow> Inr (Dir (AList.update c n' es)))"
| "mkdir_p n (c # p) = Inl NotADirectoryError"

text \<open>\<^verbatim>\<open>Path.name\<close> and \<^verbatim>\<open>Path.parent\<close>.\<close>

definition name :: "path \<Rightarrow> string" where
  "name p = (if p = [] then [] else last p)"

definition parent :: "path \<Rightarrow> path" where
  "parent p = butlast p"

text \<open>\<^verbatim>\<open>open(p, 'rb').read()\<close>.\<close>

definition read_file :: "node \<Rightarrow> path \<Rightarrow> error + byte list" where
  "read_file fs p =
    (case lookup fs p of
       None \<Rightarrow> Inl FileNotFoundError
     | Some (File data) \<Rightarrow> Inr data
     | Some Unreadable \<Rightarrow> Inl PermissionError
     | Some (Dir es) \<Rightarrow> Inl IsADirectoryError)"

text \<open>
  What the operating system may do to a write besides what the tree decides: refuse to
  open the file (a name that is too long, a read-only or full file system, no
  permission), or fail while the bytes are written, after some of them reached the
  file.
\<close>

record io_faults =
  open_fault :: "path \<Rightarrow> error option"
  write_fault :: "byte list \<Rightarrow> nat option"

text \<open>
  \<^verbatim>\<open>with open(p, 'wb') as f: f.write(data)\<close>. Opening needs a directory as parent and
  a target that is no directory, and creates or truncates the file. When the write then
  fails the exception leaves the block with the file holding the bytes written so far.
\<close>

definition write_file :: "io_faults \<Rightarrow> node \<Rightarrow> path \<Rightarrow> byte list \<Rightarrow> (error + unit) \<times> node" where
  "write_file io fs p data =
    (if p = [] then (Inl IsADirectoryError, fs)
     else
      (case open_fault io p of
         Some e \<Rightarrow> (Inl e, fs)
       | None \<Rightarrow>
          (case lookup fs (parent p) of
             None \<Rightarrow> (Inl FileNotFoundError, fs)
           | Some (Dir es) \<Rightarrow>
              (case map_of es (last p) of
                 Some (Dir es') \<Rightarrow> (Inl IsADirectoryError, fs)
               | Some Unreadable \<Rightarrow> (Inl PermissionError, fs)
               | _ \<Rightarrow>
                  (case write_fault io data of
                     None \<Rightarrow> (Inr (), update fs p (Some (File data)))
                   | Some k \<Rightarrow>
                      (Inl (OSError ''write failed''), update fs p (Some (File (take k data))))))
           | Some n \<Rightarrow> (Inl NotADirectoryError, fs))))"

text \<open>\<^verbatim>\<open>Path.iterdir\<close>: the entries of a directory, each name once.\<close>

definition iterdir :: "node \<Rightarrow> path \<Rightarrow> error + (string \<times> node) list" where
  "iterdir fs p =
    (case lookup fs p of
       None \<Rightarrow> Inl FileNotFoundError
     | Some (Dir es) \<Rightarrow> Inr (map (\<lambda>c. (c, the (map_of es c))) (remdups (map fst es)))
     | Some n \<Rightarrow> Inl NotADirectoryError)"

text \<open>
  \<^verbatim>\<open>Path.rename\<close> with POSIX semantics: an existing target is replaced only when it
  is an empty directory (source a directory) or a file (source a file); a directory
  cannot be moved below itself.
\<close>

definition rename :: "node \<Rightarrow> path \<Rightarrow> path \<Rightarrow> error + node" where
  "rename fs src dst =
    (case lookup fs src of
       None \<Rightarrow> Inl FileNotFoundError
     | Some n \<Rightarrow>
        if src = dst then Inr fs
        else if src = [] \<or> dst = [] \<or> prefix src dst then Inl InvalidArgument
        else
         (case lookup fs (parent dst) of
            None \<Rightarrow> Inl FileNotFoundError
          | Some (Dir es) \<Rightarrow>
             (case map_of es (last dst) of
                None \<Rightarrow> Inr (update (update fs src None) dst (Some n))
              | Some (Dir es') \<Rightarrow>
                 if \<not> is_dir_node n then Inl IsADirectoryError
                 else if es' \<noteq> [] then Inl DirectoryNotEmpty
                 else Inr (update (update fs src None) dst (Some n))
              | Some d \<Rightarrow>
                 if is_dir_node n then Inl NotADirectoryError
                 else Inr (update (update fs src None) dst (Some n)))
          | Some d \<Rightarrow> Inl NotADirectoryError))"

subsection \<open>Image encoding\<close>

text \<open>
  \<^verbatim>\<open>Path.suffix\<close>: the part of the name from its last dot on, empty when the name
  has no dot, starts with its only dot or ends with a dot.
\<close>

definition rfind :: "char \<Rightarrow> string \<Rightarrow> nat option" where
  "rfind c s =
    (if c \<in> set s then Some (length s - 1 - length (takeWhile (\<lambda>x. x \<noteq> c) (rev s))) else None)"

definition suffix_of :: "path \<Rightarrow> string" where
  "suffix_of p =
    (case rfind CHR ''.'' (name p) of
       None \<Rightarrow> []
     | Some i \<Rightarrow> if 0 < i \<and> i + 1 < length (name p) then drop i (name p) else [])"

text \<open>
  The \<^verbatim>\<open>mime_types\<close> tables of the two \<^verbatim>\<open>image_to_data_uri\<close> functions, and
  \<^verbatim>\<open>mime_types.get(suffix, 'image/png')\<close>.
\<close>

definition app_mime_types :: "(string \<times> string) list" where
  "app_mime_types =
    [(''.png'', ''image/png''),
     (''.jpg'', ''image/jpeg''),
     (''.jpeg'', ''image/jpeg''),
     (''.webp'', ''image/webp''),
     (''.gif'', ''image/gif''),
     (''.bmp'', ''image/bmp'')]"

definition eval_mime_types :: "(string \<times> string) list" where
  "eval_mime_types =
    [(''.png'', ''image/png''),
     (''.jpg'', ''image/jpeg''),
     (''.jpeg'', ''image/jpeg''),
     (''.webp'', ''image/webp'')]"

definition dict_get :: "(string \<times> 'v) list \<Rightarrow> string \<Rightarrow> 'v \<Rightarrow> 'v" where
  "dict_get d k dflt = (case map_of d k of None \<Rightarrow> dflt | Some v \<Rightarrow> v)"

definition app_image_to_data_uri :: "(string \<Rightarrow> string) \<Rightarrow> node \<Rightarrow> path \<Rightarrow> error + string" where
  "app_image_to_data_uri lower fs image_path =
    (case read_file fs image_path of
       Inl e \<Rightarrow> Inl e
     | Inr image_data \<Rightarrow>
        (let suffix = lower (suffix_of image_path);
             mime_type = dict_get app_mime_types suffix ''image/png'';
             b64_data = b64encode image_data
         in Inr (''data:'' @ mime_type @ '';base64,'' @ b64_data)))"

definition eval_image_to_data_uri :: "(string \<Rightarrow> string) \<Rightarrow> node \<Rightarrow> path \<Rightarrow> error + string" where
  "eval_image_to_data_uri lower fs image_path =
    (case read_file fs image_path of
       Inl e \<Rightarrow> Inl e
     | Inr image_data \<Rightarrow>
        (let suffix = lower (suffix_of image_path);
             mime_type = dict_get eval_mime_types suffix ''image/png'';
             b64_data = b64encode image_data
         in Inr (''data:'' @ mime_type @ '';base64,'' @ b64_data)))"

text \<open>
  What the specification expects of an encoding: the recognised extensions with the
  MIME type each one stands for, and the header \<^verbatim>\<open>data:<mime>;base64,\<close> of a data URI.
\<close>

definition expected_mime :: "(string \<times> string) list" where
  "expected_mime =
    [(''.png'', ''image/png''),
     (''.jpg'', ''image/jpeg''),
     (''.jpeg'', ''image/jpeg''),
     (''.webp'', ''image/webp''),
     (''.gif'', ''image/gif''),
     (''.bmp'', ''image/bmp'')]"

definition data_uri_header :: "string \<Rightarrow> string" where
  "data_uri_header mime = ''data:'' @ mime @ '';base64,''"

text \<open>
  A string is a data URI of the given MIME type for the given bytes: it begins with the
  header, and the rest decodes to the bytes.
\<close>

definition is_data_uri_of :: "string \<Rightarrow> string \<Rightarrow> byte list \<Rightarrow> bool" where
  "is_data_uri_of uri mime bs \<longleftrightarrow>
     prefix (data_uri_header mime) uri
     \<and> b64decode (drop (length (data_uri_header mime)) uri) = Some bs"

subsection \<open>The remote service\<close>

definition newline :: char where
  "newline = CHR 0x0A"

definition SYSTEM_PROMPT :: string where
  "SYSTEM_PROMPT =
     ''Transform this whiteboard photograph into a clean, professional diagram.''
     @ [newline]
     @ [newline]
     @ ''Create a NEW image with:''
     @ [newline]
     @ ''- Clean, solid MATTE WHITE background (not the original whiteboard)''
     @ [newline]
     @ ''- Clear, legible text preserving the original wording exactly''
     @ [newline]
     @ ''- Professional lines, arrows, and shapes with a hand-drawn sketch ''
     @ ''aesthetic''
     @ [newline]
     @ ''- Subtle colors to distinguish elements and improve clarity''
     @ [newline]
     @ [newline]
     @ ''Preserve the layout and spatial relationships. Use standard icons where ''
     @ ''appropriate (cylinders for databases, rectangles for systems). Fix ''
     @ ''incomplete elements. Omit board edges, reflections, erasers, and other ''
     @ ''incidental items from the photo.''
     @ [newline]
     @ [newline]
     @ ''The result should look like a polished whiteboard diagram ready for a ''
     @ ''professional presentation.''"

text \<open>The evaluation harness repeats the same text under the name \<^verbatim>\<open>PROMPT\<close>.\<close>

definition PROMPT :: string where
  "PROMPT = SYSTEM_PROMPT"

text \<open>
  What lies outside the program during one remote call: \<^verbatim>\<open>replicate.run\<close> and
  \<^verbatim>\<open>httpx.get\<close>, each of which returns or raises, the clock, and the faults of the
  write of the output file. A run receives one such environment per call, so two calls
  may be answered differently.
\<close>

record http_response =
  status_code :: nat
  content :: "byte list"

record env =
  replicate_run :: "string \<Rightarrow> payload \<Rightarrow> error + pyval"
  http_get :: "pyval \<Rightarrow> error + http_response"
  clock :: datetime
  faults :: io_faults

text \<open>\<^verbatim>\<open>response.raise_for_status()\<close>: any status outside 2xx raises.\<close>

definition raise_for_status :: "http_response \<Rightarrow> error + unit" where
  "raise_for_status response =
    (if 200 \<le> status_code response \<and> status_code response < 300 then Inr ()
     else Inl (HTTPStatusError (status_code response)))"

subsection \<open>Processing one image (production CLI)\<close>

text \<open>
  The body of the \<^verbatim>\<open>try\<close> block of \<^verbatim>\<open>process_image\<close>: the value is what the
  block returns or the exception that leaves it, together with the file system at that
  moment.
\<close>

definition process_image_try ::
    "(string \<Rightarrow> string) \<Rightarrow> env \<Rightarrow> node \<Rightarrow> path \<Rightarrow> path \<Rightarrow> string \<Rightarrow> (error + bool) \<times> node" where
  "process_image_try lower env fs image_path output_path model_name =
    (case map_of app_MODELS model_name of
       None \<Rightarrow> (Inl KeyError, fs)
     | Some model_config \<Rightarrow>
        (case app_image_to_data_uri lower fs image_path of
           Inl e \<Rightarrow> (Inl e, fs)
         | Inr image_uri \<Rightarrow>
            (let inputs = input_fn model_config SYSTEM_PROMPT image_uri
             in case replicate_run env (model_id model_config) inputs of
                  Inl e \<Rightarrow> (Inl e, fs)
                | Inr output \<Rightarrow>
                   (let output_url = get_output_url output
                    in if py_truthy output_url then
                         (case http_get env output_url of
                            Inl e \<Rightarrow> (Inl e, fs)
                          | Inr response \<Rightarrow>
                             (case raise_for_status response of
                                Inl e \<Rightarrow> (Inl e, fs)
                              | Inr u \<Rightarrow>
                                 (case mkdir_p fs (parent output_path) of
                                    Inl e \<Rightarrow> (Inl e, fs)
                                  | Inr fs1 \<Rightarrow>
                                     (case write_file (faults env) fs1 output_path
                                             (content response) of
                                        (Inl e, fs2) \<Rightarrow> (Inl e, fs2)
                                      | (Inr w, fs2) \<Rightarrow> (Inr True, fs2)))))
                       else (Inr False, fs)))))"

text \<open>\<^verbatim>\<open>process_image\<close>: \<^verbatim>\<open>except Exception\<close> turns every exception into \<^verbatim>\<open>False\<close>.\<close>

definition process_image ::
    "(string \<Rightarrow> string) \<Rightarrow> env \<Rightarrow> node \<Rightarrow> path \<Rightarrow> path \<Rightarrow> string \<Rightarrow> bool \<times> node" where
  "process_image lower env fs image_path output_path model_name =
    (case process_image_try lower env fs image_path output_path model_name of
       (Inl e, fs') \<Rightarrow> (False, fs')
     | (Inr ok, fs') \<Rightarrow> (ok, fs'))"

subsection \<open>The evaluation harness\<close>

text \<open>\<^verbatim>\<open>run_model\<close>: an exception of the payload builder or of the remote call gives \<^verbatim>\<open>None\<close>.\<close>

definition run_model :: "env \<Rightarrow> string \<Rightarrow> model_config \<Rightarrow> string \<Rightarrow> pyval" where
  "run_model env model_name model_config image_uri =
    (let inputs = input_fn model_config PROMPT image_uri
     in case replicate_run env (model_id model_config) inputs of
          Inl e \<Rightarrow> PNone
        | Inr output \<Rightarrow> run_model_url output)"

definition download_image_try :: "env \<Rightarrow> node \<Rightarrow> pyval \<Rightarrow> path \<Rightarrow> (error + bool) \<times> node" where
  "download_image_try env fs url output_path =
    (case http_get env url of
       Inl e \<Rightarrow> (Inl e, fs)
     | Inr response \<Rightarrow>
        (case raise_for_status response of
           Inl e \<Rightarrow> (Inl e, fs)
         | Inr u \<Rightarrow>
            (case mkdir_p fs (parent output_path) of
               Inl e \<Rightarrow> (Inl e, fs)
             | Inr fs1 \<Rightarrow>
                (case write_file (faults env) fs1 output_path (content response) of
                   (Inl e, fs2) \<Rightarrow> (Inl e, fs2)
                 | (Inr w, fs2) \<Rightarrow> (Inr True, fs2)))))"

definition download_image :: "env \<Rightarrow> node \<Rightarrow> pyval \<Rightarrow> path \<Rightarrow> bool \<times> node" where
  "download_image env fs url output_path =
    (case download_image_try env fs url output_path of
       (Inl e, fs') \<Rightarrow> (False, fs')
     | (Inr ok, fs') \<Rightarrow> (ok, fs'))"

text \<open>Directories of the harness, relative to the directory of the script.\<close>

definition SOURCE_DIR :: path where
  "SOURCE_DIR = [''source'']"

definition RUNS_DIR :: path where
  "RUNS_DIR = [''runs'']"

text \<open>\<^verbatim>\<open>Path.stem\<close>: the name without its suffix.\<close>

definition stem :: "path \<Rightarrow> string" where
  "stem p = take (length (name p) - length (suffix_of p)) (name p)"

text \<open>
  \<^verbatim>\<open>check_api_key\<close>: \<^verbatim>\<open>sys.exit(1)\<close> when the variable is unset or empty.
\<close>

definition check_api_key :: "string option \<Rightarrow> error + string" where
  "check_api_key api_key =
    (case api_key of
       None \<Rightarrow> Inl (SystemExit 1)
     | Some k \<Rightarrow> if k = [] then Inl (SystemExit 1) else Inr k)"

text \<open>
  \<^verbatim>\<open>sorted(SOURCE_DIR.glob("*.png"))\<close>: the entries of the directory, files or not,
  whose name ends in \<^verbatim>\<open>.png\<close>; none when the directory is missing.
\<close>

definition glob_png :: "node \<Rightarrow> path \<Rightarrow> path list" where
  "glob_png fs d =
    (case iterdir fs d of
       Inl e \<Rightarrow> []
     | Inr entries \<Rightarrow>
        map (\<lambda>n. d @ [n]) (sort (filter (\<lambda>n. suffix ''.png'' n) (map fst entries))))"

text \<open>
  The inner loop of \<^verbatim>\<open>main\<close>, over \<^verbatim>\<open>MODELS.items()\<close>, for one source image. The
  environment of a call is chosen by the image name and the model name. The results
  are the triples appended to \<^verbatim>\<open>results\<close>.
\<close>

fun eval_models_loop ::
    "(string \<Rightarrow> string \<Rightarrow> env) \<Rightarrow> path \<Rightarrow> path \<Rightarrow> string \<Rightarrow> (string \<times> model_config) list
      \<Rightarrow> node \<Rightarrow> (string \<times> string \<times> string) list \<times> node" where
  "eval_models_loop envs run_dir img_path image_uri [] fs = ([], fs)"
| "eval_models_loop envs run_dir img_path image_uri ((model_name, model_config) # rest) fs =
    (let e = envs (name img_path) model_name;
         output_url = run_model e model_name model_config image_uri
     in if py_truthy output_url then
          (let output_path = run_dir @ [stem img_path @ ''_'' @ model_name @ ''.png''];
               (ok, fs1) = download_image e fs output_url output_path;
               (results, fs2) = eval_models_loop envs run_dir img_path image_uri rest fs1
           in ((name img_path, model_name, if ok then ''success'' else ''download_failed'')
                 # results, fs2))
        else
          (let (results, fs2) = eval_models_loop envs run_dir img_path image_uri rest fs
           in ((name img_path, model_name, ''api_failed'') # results, fs2)))"

text \<open>
  The outer loop, over the source images. \<^verbatim>\<open>image_to_data_uri\<close> is called outside
  every \<^verbatim>\<open>try\<close>, so its exception leaves the loop.
\<close>

fun eval_images_loop ::
    "(string \<Rightarrow> string) \<Rightarrow> (string \<Rightarrow> string \<Rightarrow> env) \<Rightarrow> path \<Rightarrow> path list \<Rightarrow> node
      \<Rightarrow> (error + (string \<times> string \<times> string) list) \<times> node" where
  "eval_images_loop lower envs run_dir [] fs = (Inr [], fs)"
| "eval_images_loop lower envs run_dir (img_path # rest) fs =
    (case eval_image_to_data_uri lower fs img_path of
       Inl e \<Rightarrow> (Inl e, fs)
     | Inr image_uri \<Rightarrow>
        (let (results, fs1) = eval_models_loop envs run_dir img_path image_uri eval_MODELS fs
         in case eval_images_loop lower envs run_dir rest fs1 of
              (Inl e, fs2) \<Rightarrow> (Inl e, fs2)
            | (Inr later, fs2) \<Rightarrow> (Inr (results @ later), fs2)))"

text \<open>The text written to \<^verbatim>\<open>results.txt\<close>, and its bytes.\<close>

definition results_log :: "string \<Rightarrow> (string \<times> string \<times> string) list \<Rightarrow> string" where
  "results_log timestamp results =
    ''Evaluation Run: '' @ timestamp @ [newline]
    @ ''Prompt:'' @ [newline] @ PROMPT @ [newline, newline]
    @ ''Results:'' @ [newline]
    @ concat (map (\<lambda>(img, model, status).
        ''  '' @ img @ '' + '' @ model @ '': '' @ status @ [newline]) results)"

definition encode_text :: "string \<Rightarrow> byte list" where
  "encode_text s = map (\<lambda>c. of_nat (of_char c)) s"

text \<open>
  \<^verbatim>\<open>main\<close> of the evaluation harness. The value is the list of results, or the
  exception that ends the run; \<open>log_io\<close> holds the faults of the write of the log.
\<close>

definition eval_main ::
    "(string \<Rightarrow> string) \<Rightarrow> io_faults \<Rightarrow> string option \<Rightarrow> datetime
      \<Rightarrow> (string \<Rightarrow> string \<Rightarrow> env) \<Rightarrow> node
      \<Rightarrow> (error + (string \<times> string \<times> string) list) \<times> node" where
  "eval_main lower log_io api_key now envs fs =
    (case check_api_key api_key of
       Inl e \<Rightarrow> (Inl e, fs)
     | Inr k \<Rightarrow>
        (let source_images = glob_png fs SOURCE_DIR
         in if source_images = [] then (Inl (SystemExit 1), fs)
            else
             (let timestamp = strftime_Ymd_HMS now;
                  run_dir = RUNS_DIR @ [timestamp]
              in case mkdir_p fs run_dir of
                   Inl e \<Rightarrow> (Inl e, fs)
                 | Inr fs1 \<Rightarrow>
                    (case eval_images_loop lower envs run_dir source_images fs1 of
                       (Inl e, fs2) \<Rightarrow> (Inl e, fs2)
                     | (Inr results, fs2) \<Rightarrow>
                        (let log_path = run_dir @ [''results.txt'']
                         in case write_file log_io fs2 log_path
                                   (encode_text (results_log timestamp results)) of
                              (Inl e, fs3) \<Rightarrow> (Inl e, fs3)
                            | (Inr w, fs3) \<Rightarrow> (Inr results, fs3))))))"

subsection \<open>Folders and the queue (production CLI)\<close>

definition IMAGE_EXTENSIONS :: "string list" where
  "IMAGE_EXTENSIONS = [''.png'', ''.jpg'', ''.jpeg'', ''.webp'', ''.gif'', ''.bmp'']"

text \<open>Directories of the CLI, relative to the project root.\<close>

definition IMAGES_DIR :: path where
  "IMAGES_DIR = [''images'']"

definition QUEUE_DIR :: path where
  "QUEUE_DIR = IMAGES_DIR @ [''originals'', ''queue'']"

definition PROCESSED_DIR :: path where
  "PROCESSED_DIR = IMAGES_DIR @ [''originals'', ''processed'']"

definition ENHANCED_DIR :: path where
  "ENHANCED_DIR = IMAGES_DIR @ [''enhanced'']"

text \<open>
  \<^verbatim>\<open>get_queue_folders\<close>: the directories directly below the queue root, sorted;
  \<^verbatim>\<open>sys.exit(1)\<close> when the queue root does not exist.
\<close>

definition get_queue_folders :: "node \<Rightarrow> error + path list" where
  "get_queue_folders fs =
    (if \<not> exists_path fs QUEUE_DIR then Inl (SystemExit 1)
     else
      (case iterdir fs QUEUE_DIR of
         Inl e \<Rightarrow> Inl e
       | Inr entries \<Rightarrow>
          Inr (map (\<lambda>n. QUEUE_DIR @ [n])
                 (sort (map fst (filter (\<lambda>(n, f). is_dir_node f) entries))))))"

text \<open>
  \<^verbatim>\<open>get_images_in_folder\<close>: the files directly in the folder whose lowercased suffix
  is a recognised extension, sorted.
\<close>

definition get_images_in_folder :: "(string \<Rightarrow> string) \<Rightarrow> node \<Rightarrow> path \<Rightarrow> error + path list" where
  "get_images_in_folder lower fs folder =
    (case iterdir fs folder of
       Inl e \<Rightarrow> Inl e
     | Inr entries \<Rightarrow>
        Inr (map (\<lambda>n. folder @ [n])
               (sort (map fst
                  (filter (\<lambda>(n, f). is_file_node f \<and> lower (suffix_of [n]) \<in> set IMAGE_EXTENSIONS)
                     entries)))))"

text \<open>
  \<^verbatim>\<open>move_to_processed\<close>. The value is the destination, or the exception raised by
  \<^verbatim>\<open>mkdir\<close> or \<^verbatim>\<open>rename\<close>; the destination the function settles on before it renames is
  \<open>processed_destination\<close>.
\<close>

definition processed_destination :: "datetime \<Rightarrow> node \<Rightarrow> path \<Rightarrow> path" where
  "processed_destination now fs folder =
    (let destination = PROCESSED_DIR @ [name folder]
     in if exists_path fs destination then
          (let timestamp = strftime_Ymd_HMS now
           in PROCESSED_DIR @ [name folder @ ''-'' @ timestamp])
        else destination)"

definition move_to_processed :: "datetime \<Rightarrow> node \<Rightarrow> path \<Rightarrow> (error + path) \<times> node" where
  "move_to_processed now fs folder =
    (case mkdir_p fs PROCESSED_DIR of
       Inl e \<Rightarrow> (Inl e, fs)
     | Inr fs1 \<Rightarrow>
        (let destination = processed_destination now fs1 folder
         in case rename fs1 folder destination of
              Inl e \<Rightarrow> (Inl e, fs1)
            | Inr fs2 \<Rightarrow> (Inr destination, fs2)))"

text \<open>
  \<^verbatim>\<open>display_folder_menu\<close>. The answers typed at the prompt are a list, read one per
  round of the \<^verbatim>\<open>while True\<close> loop; an answer is \<^verbatim>\<open>q\<close>, a text that \<^verbatim>\<open>int()\<close>
  accepts, or any other text. When the input ends the prompt raises \<^verbatim>\<open>EOFError\<close>.
  The table printed before the prompt is output only.
\<close>

datatype choice = Quit | Number int | NotANumber

fun menu_loop :: "path list \<Rightarrow> choice list \<Rightarrow> error + path option" where
  "menu_loop folders [] = Inl EOFError"
| "menu_loop folders (Quit # rest) = Inr None"
| "menu_loop folders (Number n # rest) =
    (let idx = n - 1
     in if 0 \<le> idx \<and> idx < int (length folders) then Inr (Some (folders ! nat idx))
        else menu_loop folders rest)"
| "menu_loop folders (NotANumber # rest) = menu_loop folders rest"

definition display_folder_menu :: "path list \<Rightarrow> choice list \<Rightarrow> error + path option" where
  "display_folder_menu folders choices =
    (if folders = [] then Inr None else menu_loop folders choices)"

subsection \<open>Processing a folder (production CLI)\<close>

text \<open>
  The \<^verbatim>\<open>for i, image_path in enumerate(images, 1)\<close> loop of \<^verbatim>\<open>process_folder\<close>. The
  environment of the call for image \<open>i\<close> is \<open>envs i\<close>. Besides the counter the loop
  yields, per image in order, whether the progress line read \<^verbatim>\<open>Completed\<close> (\<open>True\<close>)
  or \<^verbatim>\<open>Failed\<close> (\<open>False\<close>).
\<close>

fun process_images ::
    "(string \<Rightarrow> string) \<Rightarrow> (nat \<Rightarrow> env) \<Rightarrow> string \<Rightarrow> path \<Rightarrow> string \<Rightarrow> nat \<Rightarrow> nat \<Rightarrow> path list
      \<Rightarrow> nat \<Rightarrow> node
      \<Rightarrow> nat \<times> bool list \<times> node" where
  "process_images lower envs model_name output_dir folder_name total_n i [] success_count fs =
    (success_count, [], fs)"
| "process_images lower envs model_name output_dir folder_name total_n i (image_path # rest)
      success_count fs =
    (let output_name =
           generate_descriptive_name lower (clock (envs i)) folder_name (int i) (int total_n);
         output_path = output_dir @ [output_name];
         (ok, fs1) = process_image lower (envs i) fs image_path output_path model_name;
         (final_count, progress, fs2) =
           process_images lower envs model_name output_dir folder_name total_n (i + 1) rest
             (if ok then success_count + 1 else success_count) fs1
     in (final_count, ok # progress, fs2))"

text \<open>
  \<^verbatim>\<open>process_folder\<close>: the pair \<^verbatim>\<open>(success_count, total)\<close> or the exception of
  \<^verbatim>\<open>iterdir\<close> or \<^verbatim>\<open>mkdir\<close>, the progress lines, and the file system afterwards.
\<close>

definition process_folder ::
    "(string \<Rightarrow> string) \<Rightarrow> (nat \<Rightarrow> env) \<Rightarrow> node \<Rightarrow> path \<Rightarrow> string
      \<Rightarrow> (error + nat \<times> nat) \<times> bool list \<times> node" where
  "process_folder lower envs fs folder model_name =
    (case get_images_in_folder lower fs folder of
       Inl e \<Rightarrow> (Inl e, [], fs)
     | Inr images \<Rightarrow>
        if images = [] then (Inr (0, 0), [], fs)
        else
         (let output_dir = ENHANCED_DIR @ [name folder]
          in case mkdir_p fs output_dir of
               Inl e \<Rightarrow> (Inl e, [], fs)
             | Inr fs1 \<Rightarrow>
                (let total_n = length images;
                     (success_count, progress, fs2) =
                       process_images lower envs model_name output_dir (name folder) total_n 1
                         images 0 fs1
                 in (Inr (success_count, total_n), progress, fs2))))"

subsection \<open>The production CLI\<close>

text \<open>
  What the user supplies to one run: the parsed arguments, the credential of the
  environment, the answers at the folder prompt and the two yes/no answers (\<open>True\<close> is
  \<^verbatim>\<open>y\<close>).
\<close>

record cli =
  arg_model :: string
  arg_list_models :: bool
  api_key :: "string option"
  folder_choices :: "choice list"
  confirm :: bool
  move_confirm :: bool

text \<open>
  How a run ends when no exception ends it: the models were listed, the menu was left,
  the run was cancelled, or one of the three summary panels was printed. \<open>Complete\<close>
  carries the number of images and, when the folder was moved, its new location; the
  relocation question is asked before that panel only.
\<close>

datatype summary =
    ListedModels
  | Exiting
  | Cancelled
  | Complete nat "path option"
  | PartialSuccess nat nat
  | Failed

fun move_prompt_shown :: "summary \<Rightarrow> bool" where
  "move_prompt_shown (Complete n loc) = True"
| "move_prompt_shown s = False"

text \<open>
  The folder \<^verbatim>\<open>main\<close> works on: what \<^verbatim>\<open>display_folder_menu(get_queue_folders())\<close>
  returns.
\<close>

definition selected_folder :: "cli \<Rightarrow> node \<Rightarrow> error + path option" where
  "selected_folder c fs =
    (case get_queue_folders fs of
       Inl e \<Rightarrow> Inl e
     | Inr folders \<Rightarrow> display_folder_menu folders (folder_choices c))"

text \<open>
  \<^verbatim>\<open>main\<close>. \<open>move_time\<close> is the clock reading when \<^verbatim>\<open>move_to_processed\<close> runs. A
  model name outside the registry is refused by \<^verbatim>\<open>parse_args\<close> (exit status 2).
\<close>

definition main ::
    "(string \<Rightarrow> string) \<Rightarrow> cli \<Rightarrow> (nat \<Rightarrow> env) \<Rightarrow> datetime \<Rightarrow> node
      \<Rightarrow> (error + summary) \<times> node" where
  "main lower c envs move_time fs =
    (if map_of app_MODELS (arg_model c) = None then (Inl (SystemExit 2), fs)
     else if arg_list_models c then (Inr ListedModels, fs)
     else
      (case check_api_key (api_key c) of
         Inl e \<Rightarrow> (Inl e, fs)
       | Inr k \<Rightarrow>
          (case selected_folder c fs of
             Inl e \<Rightarrow> (Inl e, fs)
           | Inr None \<Rightarrow> (Inr Exiting, fs)
           | Inr (Some folder) \<Rightarrow>
              (case get_images_in_folder lower fs folder of
                 Inl e \<Rightarrow> (Inl e, fs)
               | Inr images \<Rightarrow>
                  if \<not> confirm c then (Inr Cancelled, fs)
                  else
                   (case process_folder lower envs fs folder (arg_model c) of
                      (Inl e, progress, fs1) \<Rightarrow> (Inl e, fs1)
                    | (Inr (success, total_n), progress, fs1) \<Rightarrow>
                       if success = total_n \<and> total_n > 0 then
                         (if move_confirm c then
                            (case move_to_processed move_time fs1 folder of
                               (Inl e, fs2) \<Rightarrow> (Inl e, fs2)
                             | (Inr new_location, fs2) \<Rightarrow>
                                (Inr (Complete total_n (Some new_location)), fs2))
                          else (Inr (Complete total_n None), fs1))
                       else if success > 0 then (Inr (PartialSuccess success total_n), fs1)
                       else (Inr Failed, fs1))))))"

text \<open>A run has relocated the folder when it ends with the folder's new location.\<close>

fun relocated :: "error + summary \<Rightarrow> bool" where
  "relocated (Inr (Complete n (Some new_location))) = True"
| "relocated r = False"

subsection \<open>Sample inputs\<close>

text \<open>
  A clock reading, storage without faults, a service that answers every call with a URL
  whose download succeeds, a service whose calls raise, a service whose downloads answer
  404, and a working service in front of a full disk: the output file opens and the
  write of its bytes fails at once.
\<close>

definition no_faults :: io_faults where
  "no_faults = \<lparr>open_fault = (\<lambda>p. None), write_fault = (\<lambda>d. None)\<rparr>"

definition sample_time :: datetime where
  "sample_time = \<lparr>year = 2026, month = 11, day = 4, hour = 9, minute = 30, second = 0\<rparr>"

definition env_ok :: env where
  "env_ok =
    \<lparr>replicate_run = (\<lambda>ident inputs. Inr (PStr ''https://replicate.delivery/out.png'')),
     http_get = (\<lambda>url. Inr \<lparr>status_code = 200, content = [137, 80, 78, 71]\<rparr>),
     clock = sample_time,
     faults = no_faults\<rparr>"

definition env_remote_down :: env where
  "env_remote_down =
    \<lparr>replicate_run = (\<lambda>ident inputs. Inl (ReplicateError ''rate limited'')),
     http_get = (\<lambda>url. Inl (HTTPError ''connection refused'')),
     clock = sample_time,
     faults = no_faults\<rparr>"

definition env_download_404 :: env where
  "env_download_404 =
    \<lparr>replicate_run = (\<lambda>ident inputs. Inr (PStr ''https://replicate.delivery/out.png'')),
     http_get = (\<lambda>url. Inr \<lparr>status_code = 404, content = []\<rparr>),
     clock = sample_time,
     faults = no_faults\<rparr>"

definition env_disk_full :: env where
  "env_disk_full =
    \<lparr>replicate_run = (\<lambda>ident inputs. Inr (PStr ''https://replicate.delivery/out.png'')),
     http_get = (\<lambda>url. Inr \<lparr>status_code = 200, content = [137, 80, 78, 71]\<rparr>),
     clock = sample_time,
     faults = \<lparr>open_fault = (\<lambda>p. None), write_fault = (\<lambda>d. Some 0)\<rparr>\<rparr>"

definition sample_cli :: cli where
  "sample_cli =
    \<lparr>arg_model = ''nano-banana'', arg_list_models = False, api_key = Some ''r8_key'',
     folder_choices = [NotANumber, Number 1], confirm = True, move_confirm = True\<rparr>"

text \<open>A queue with one folder of three images and a text file.\<close>

definition sample_fs :: node where
  "sample_fs =
    Dir [(''images'',
      Dir [(''originals'',
        Dir [(''queue'',
          Dir [(''Sprint Plan'',
            Dir [(''b.png'', File [2]), (''a.jpg'', File [1]), (''notes.txt'', File [110]),
                 (''c.PNG'', File [3])])])])])]"

definition envs_second_fails :: "nat \<Rightarrow> env" where
  "envs_second_fails i = (if i = 2 then env_remote_down else env_ok)"

text \<open>A queue whose only folder holds no image, only a text file.\<close>

definition sample_fs_no_images :: node where
  "sample_fs_no_images =
    Dir [(''images'',
      Dir [(''originals'',
        Dir [(''queue'', Dir [(''Retro'', Dir [(''notes.txt'', File [110])])])])])]"

text \<open>
  Between two runs a folder of a name that was moved before is queued again: the
  environment puts a new folder with one image at that place in the queue.
\<close>

definition requeue :: "node \<Rightarrow> string \<Rightarrow> node" where
  "requeue fs n = update fs (QUEUE_DIR @ [n]) (Some (Dir [(''d.png'', File [4])]))"

text \<open>A queue folder whose name is already taken under the processed root.\<close>

definition sample_fs_processed_before :: node where
  "sample_fs_processed_before =
    Dir [(''images'',
      Dir [(''originals'',
        Dir [(''queue'', Dir [(''Sprint Plan'', Dir [(''a.png'', File [1])])]),
             (''processed'', Dir [(''Sprint Plan'', Dir [(''old.png'', File [0])])])])])]"

section \<open>Theorems\<close>

subsection \<open>The two registries build the same requests\<close>

text \<open>
  C10. For every model short name present in both the production registry and the
  evaluation registry, and every prompt and image URI, the two entries name the same
  provider identifier and their payload builders return the same request object.
\<close>

theorem registries_build_same_payload:
  assumes "map_of app_MODELS short_name = Some a"
    and "map_of eval_MODELS short_name = Some e"
  shows "model_id a = model_id e \<and> input_fn a prompt image_uri = input_fn e prompt image_uri"
  using assms
  by (auto simp: app_MODELS_def eval_MODELS_def split: if_splits)

theorem registries_build_same_payload_witness:
  "map_of app_MODELS ''qwen-image-edit-plus'' \<noteq> None
   \<and> map_of eval_MODELS ''qwen-image-edit-plus'' \<noteq> None
   \<and> model_id (the (map_of app_MODELS ''qwen-image-edit-plus''))
       = model_id (the (map_of eval_MODELS ''qwen-image-edit-plus''))
   \<and> input_fn (the (map_of app_MODELS ''qwen-image-edit-plus'')) ''p'' ''u''
       = input_fn (the (map_of eval_MODELS ''qwen-image-edit-plus'')) ''p'' ''u''"
proof -
  have a: "map_of app_MODELS ''qwen-image-edit-plus''
      = Some (the (map_of app_MODELS ''qwen-image-edit-plus''))"
    by (simp add: app_MODELS_def)
  have e: "map_of eval_MODELS ''qwen-image-edit-plus''
      = Some (the (map_of eval_MODELS ''qwen-image-edit-plus''))"
    by (simp add: eval_MODELS_def)
  have na: "map_of app_MODELS ''qwen-image-edit-plus'' \<noteq> None"
    by (simp add: app_MODELS_def)
  have ne: "map_of eval_MODELS ''qwen-image-edit-plus'' \<noteq> None"
    by (simp add: eval_MODELS_def)
  from registries_build_same_payload [OF a e, of "''p''" "''u''"] na ne
  show ?thesis by blast
qed

subsection \<open>Response normalisation\<close>

lemma scan_items_find:
  "scan_items items =
     (case find (\<lambda>i. direct_location i \<noteq> None) items of
        None \<Rightarrow> None
      | Some i \<Rightarrow> direct_location i)"
proof (induction items)
  case Nil
  show ?case by simp
next
  case (Cons item rest)
  show ?case
  proof (cases "direct_location item")
    case None
    then have "scan_items (item # rest) = scan_items rest"
      by (auto simp: direct_location_def split: if_splits)
    with None Cons show ?thesis by simp
  next
    case (Some l)
    then have "scan_items (item # rest) = Some l"
      by (auto simp: direct_location_def split: if_splits)
    with Some show ?thesis by simp
  qed
qed

lemma direct_location_char: "direct_location (PStr [c]) = None"
  by (simp add: direct_location_def startswith_def)

lemma find_chars: "find (\<lambda>i. direct_location i \<noteq> None) (map (\<lambda>c. PStr [c]) s) = None"
  by (induction s) (simp_all only: list.map find.simps direct_location_char, simp_all)

lemma first_matching_item_PStr: "first_matching_item (PStr s) = None"
  unfolding first_matching_item_def py_iter.simps option.case by (rule find_chars)

lemma first_matching_item_located:
  assumes "first_matching_item r = Some i"
  shows "direct_location i \<noteq> None"
proof -
  from assms obtain items where "find (\<lambda>i. direct_location i \<noteq> None) items = Some i"
    by (auto simp only: first_matching_item_def split: option.splits)
  then show ?thesis
    unfolding find_Some_iff by blast
qed

lemma scan_items_first_matching:
  assumes "py_iter r = Some items"
  shows "scan_items items =
    (case first_matching_item r of None \<Rightarrow> None | Some i \<Rightarrow> direct_location i)"
  unfolding first_matching_item_def assms option.case by (rule scan_items_find)

lemma first_matching_item_not_iterable:
  "py_iter r = None \<Longrightarrow> first_matching_item r = None"
  by (simp only: first_matching_item_def option.case)

lemma scan_then_last_resort_spec:
  "scan_then_last_resort r =
    (case first_matching_item r of
       Some i \<Rightarrow> the (direct_location i)
     | None \<Rightarrow> if startswith (py_str r) ''http'' then PStr (py_str r) else PNone)"
proof (cases "py_iter r")
  case None
  then show ?thesis
    by (simp add: scan_then_last_resort_def first_matching_item_not_iterable last_resort_def)
next
  case (Some items)
  show ?thesis
  proof (cases "first_matching_item r")
    case None
    with Some show ?thesis
      by (simp add: scan_then_last_resort_def scan_items_first_matching last_resort_def)
  next
    case fm: (Some i)
    from first_matching_item_located [OF fm] obtain l where "direct_location i = Some l"
      by blast
    with Some fm show ?thesis
      by (simp add: scan_then_last_resort_def scan_items_first_matching)
  qed
qed

lemma get_output_url_steps:
  "get_output_url r =
    (case direct_location r of Some l \<Rightarrow> l | None \<Rightarrow> scan_then_last_resort r)"
  by (cases r)
    (auto simp: get_output_url_def direct_location_def scan_then_last_resort_def
      last_resort_def startswith_def)

lemma run_model_url_steps:
  "run_model_url r =
    (case direct_location r of Some l \<Rightarrow> l | None \<Rightarrow> scan_then_last_resort r)"
proof (cases r)
  case PNone
  then show ?thesis
    by (simp add: run_model_url_def direct_location_def scan_then_last_resort_def
        last_resort_def startswith_def)
next
  case (PStr s)
  have "scan_items (map (\<lambda>c. PStr [c]) s) = None"
    unfolding scan_items_find find_chars by simp
  with PStr show ?thesis
    by (simp add: run_model_url_def direct_location_def scan_then_last_resort_def
        last_resort_def)
next
  case (PObj u it s t)
  then show ?thesis
    by (cases u) (simp_all add: run_model_url_def direct_location_def scan_then_last_resort_def)
qed

lemma get_output_url_spec: "get_output_url r = normalize_spec r"
  unfolding get_output_url_steps normalize_spec_def scan_then_last_resort_spec ..

lemma run_model_url_spec: "run_model_url r = normalize_spec r"
  unfolding run_model_url_steps normalize_spec_def scan_then_last_resort_spec ..

lemma scan_items_skip:
  "\<forall>x \<in> set xs. direct_location x = None \<Longrightarrow> scan_items (xs @ ys) = scan_items ys"
  by (induction xs) (auto simp: direct_location_def split: if_splits)

text \<open>
  C2. Both normalisers (\<^verbatim>\<open>get_output_url\<close> and the response handling of \<^verbatim>\<open>run_model\<close>)
  compute, for every response, the priority order (a) to (e) of the specification. In
  particular an object with a location attribute yields the attribute, a string
  beginning with \<^verbatim>\<open>http\<close> yields itself, an iterable without its own location yields
  the location of its first item that has one (the items before it having none), and an
  object that is neither iterable nor a string and whose string form does not begin
  with \<^verbatim>\<open>http\<close> yields \<^verbatim>\<open>None\<close>, no location found.
\<close>

theorem normalization_priority_order:
  "get_output_url r = normalize_spec r
   \<and> run_model_url r = normalize_spec r
   \<and> get_output_url (PObj (Some u) it s t) = u
   \<and> (startswith h ''http'' \<longrightarrow> get_output_url (PStr h) = PStr h)
   \<and> ((\<forall>x \<in> set xs. direct_location x = None) \<and> direct_location i = Some l
        \<longrightarrow> get_output_url (PObj None (Some (xs @ i # ys)) s t) = l)
   \<and> (\<not> startswith s ''http'' \<longrightarrow> get_output_url (PObj None None s t) = PNone)"
proof -
  have list_case: "get_output_url (PObj None (Some (xs @ i # ys)) s t) = l"
    if "\<forall>x \<in> set xs. direct_location x = None" and "direct_location i = Some l"
  proof -
    have "scan_items (xs @ i # ys) = scan_items (i # ys)"
      using that(1) by (rule scan_items_skip)
    also have "\<dots> = Some l"
      using that(2) by (auto simp: direct_location_def split: if_splits)
    finally show ?thesis
      by (simp add: get_output_url_def)
  qed
  have "get_output_url (PObj (Some u) it s t) = u"
    by (simp add: get_output_url_def)
  moreover have "startswith h ''http'' \<longrightarrow> get_output_url (PStr h) = PStr h"
    by (simp add: get_output_url_def)
  moreover have "\<not> startswith s ''http'' \<longrightarrow> get_output_url (PObj None None s t) = PNone"
    by (simp add: get_output_url_def last_resort_def)
  ultimately show ?thesis
    using get_output_url_spec run_model_url_spec list_case by blast
qed

theorem normalization_priority_order_witness:
  "startswith ''https://x/y.png'' ''http''
   \<and> direct_location (PStr ''queued'') = None
   \<and> direct_location PNone = None
   \<and> direct_location (PObj (Some (PStr ''https://x/y.png'')) None ''f'' True)
       = Some (PStr ''https://x/y.png'')
   \<and> \<not> startswith ''<obj>'' ''http''
   \<and> get_output_url (PStr ''https://x/y.png'') = PStr ''https://x/y.png''
   \<and> get_output_url
        (PObj None
          (Some ([PStr ''queued'', PNone]
             @ PObj (Some (PStr ''https://x/y.png'')) None ''f'' True # [PStr ''http://z'']))
          ''[...]'' True)
       = PStr ''https://x/y.png''
   \<and> get_output_url (PObj None None ''<obj>'' True) = PNone"
proof -
  have h1: "startswith ''https://x/y.png'' ''http''"
    by (simp add: startswith_def)
  have h2: "\<forall>x \<in> set [PStr ''queued'', PNone]. direct_location x = None"
    by (simp add: direct_location_def startswith_def)
  have h3: "direct_location (PObj (Some (PStr ''https://x/y.png'')) None ''f'' True)
      = Some (PStr ''https://x/y.png'')"
    by (simp add: direct_location_def)
  have h4: "\<not> startswith ''<obj>'' ''http''"
    by (simp add: startswith_def)
  have h2': "direct_location (PStr ''queued'') = None" "direct_location PNone = None"
    using h2 by simp_all
  from normalization_priority_order
    [of PNone "PStr ''u''" None "''<obj>''" True "''https://x/y.png''"
      "[PStr ''queued'', PNone]"
      "PObj (Some (PStr ''https://x/y.png'')) None ''f'' True" "PStr ''https://x/y.png''"
      "[PStr ''http://z'']"]
   normalization_priority_order
    [of PNone "PStr ''u''" None "''[...]''" True "''https://x/y.png''"
      "[PStr ''queued'', PNone]"
      "PObj (Some (PStr ''https://x/y.png'')) None ''f'' True" "PStr ''https://x/y.png''"
      "[PStr ''http://z'']"]
    h1 h2 h2' h3 h4
  show ?thesis by blast
qed

subsection \<open>Output names\<close>

lemma index_of_nth: "distinct xs \<Longrightarrow> n < length xs \<Longrightarrow> index_of xs (xs ! n) = Some n"
proof (induction xs arbitrary: n)
  case Nil
  then show ?case by simp
next
  case (Cons y ys)
  show ?case
  proof (cases n)
    case 0
    then show ?thesis by simp
  next
    case (Suc m)
    with Cons.prems have "ys ! m \<in> set ys" "y \<notin> set ys" by auto
    then have "ys ! m \<noteq> y" by blast
    with Suc Cons show ?thesis by simp
  qed
qed

lemma hyphenate_replace:
  "replace_char CHR ''_'' CHR ''-'' (replace_char CHR '' '' CHR ''-'' s) = map hyphenate s"
  by (induction s) (simp_all add: replace_char_def hyphenate_def)

lemma generate_descriptive_name_eq:
  "generate_descriptive_name lower now folder_name index total_n =
      lower (map hyphenate folder_name)
      @ (if total_n = 1 then [] else ''-'' @ format_02d index)
      @ ''-enhanced-'' @ strftime_Ymd now @ ''.png''"
  unfolding generate_descriptive_name_def Let_def hyphenate_replace by simp

lemma digit_value_digit_char: "d < 10 \<Longrightarrow> digit_value (digit_char d) = Some d"
  unfolding digit_value_def digit_char_def
  by (rule index_of_nth) simp_all

lemma digit_char_zero: "digit_char 0 = CHR ''0''"
  by (simp add: digit_char_def)

lemma digit_char_eq_zero: "d < 10 \<Longrightarrow> digit_char d = CHR ''0'' \<longleftrightarrow> d = 0"
  using digit_value_digit_char [of d] digit_value_digit_char [of 0]
  by (auto simp: digit_char_zero)

text \<open>One step of reading digits, and the reading of a whole string from a start value.\<close>

lemma str_nat_not_Nil: "str_nat n \<noteq> []"
  by (subst str_nat.simps) simp

lemma read_digit_char: "d < 10 \<Longrightarrow> read_digit (digit_char d) (Some a) = Some (10 * a + d)"
  using digit_value_digit_char [of d] by simp

lemma read_str_nat: "fold read_digit (str_nat n) (Some 0) = Some n"
proof (induction n rule: str_nat.induct)
  case (1 n)
  show ?case
  proof (cases "n < 10")
    case True
    then show ?thesis
      by (subst str_nat.simps) (simp add: digit_value_digit_char)
  next
    case False
    have "n mod 10 < 10" by simp
    with False "1.IH" show ?thesis
      by (subst str_nat.simps) (simp add: digit_value_digit_char)
  qed
qed

lemma read_zeros: "fold read_digit (replicate k CHR ''0'') (Some 0) = Some 0"
proof (induction k)
  case 0
  show ?case by simp
next
  case (Suc k)
  have z: "read_digit CHR ''0'' (Some 0) = Some 0"
    using read_digit_char [of 0 0] by (simp only: digit_char_zero) simp
  have "fold read_digit (replicate (Suc k) CHR ''0'') (Some 0)
      = fold read_digit (replicate k CHR ''0'') (read_digit CHR ''0'' (Some 0))"
    by (simp only: replicate_Suc fold_simps)
  with z Suc show ?case
    by (simp only:)
qed

lemma digits_value_fold: "cs \<noteq> [] \<Longrightarrow> digits_value cs = fold read_digit cs (Some 0)"
  by (cases cs) simp_all

lemma digits_value_zfill: "digits_value (zfill w (str_nat n)) = Some n"
proof -
  have "zfill w (str_nat n) \<noteq> []"
    by (simp add: zfill_def str_nat_not_Nil)
  then have "digits_value (zfill w (str_nat n)) = fold read_digit (zfill w (str_nat n)) (Some 0)"
    by (rule digits_value_fold)
  also have "\<dots> = fold read_digit (str_nat n)
      (fold read_digit (replicate (w - length (str_nat n)) CHR ''0'') (Some 0))"
    unfolding zfill_def by (simp only: fold_append comp_apply)
  also have "\<dots> = Some n"
    by (simp only: read_zeros read_str_nat)
  finally show ?thesis .
qed

lemma length_str_nat_small: "n < 10 \<Longrightarrow> length (str_nat n) = 1"
  by (subst str_nat.simps) simp

lemma length_str_nat_two: "10 \<le> n \<Longrightarrow> n < 100 \<Longrightarrow> length (str_nat n) = 2"
proof -
  assume a: "10 \<le> n" "n < 100"
  then have "n div 10 < 10" by simp
  with a show ?thesis
    by (subst str_nat.simps) (simp add: length_str_nat_small)
qed

lemma length_str_nat_ge: "10 \<le> n \<Longrightarrow> 2 \<le> length (str_nat n)"
  using str_nat_not_Nil [of "n div 10"]
  by (subst str_nat.simps) (cases "str_nat (n div 10)"; simp)

lemma hd_str_nat: "hd (str_nat n) = CHR ''0'' \<longleftrightarrow> n = 0"
proof (induction n rule: str_nat.induct)
  case (1 n)
  show ?case
  proof (cases "n < 10")
    case True
    then show ?thesis
      by (subst str_nat.simps) (simp add: digit_char_eq_zero)
  next
    case False
    then have "n div 10 \<noteq> 0" by simp
    with False "1.IH" str_nat_not_Nil [of "n div 10"] show ?thesis
      by (subst str_nat.simps) simp
  qed
qed

lemma format_02d_pinned:
  assumes "0 \<le> index"
  shows "digits_value (format_02d index) = Some (nat index)"
    and "2 \<le> length (format_02d index)"
    and "index < 100 \<Longrightarrow> length (format_02d index) = 2"
    and "10 \<le> index \<Longrightarrow> hd (format_02d index) \<noteq> CHR ''0''"
proof -
  from assms have f: "format_02d index = zfill 2 (str_nat (nat index))"
    by (simp add: format_02d_def)
  show "digits_value (format_02d index) = Some (nat index)"
    unfolding f by (rule digits_value_zfill)
  show "2 \<le> length (format_02d index)"
    unfolding f zfill_def by simp
  show "length (format_02d index) = 2" if "index < 100"
  proof (cases "nat index < 10")
    case True
    then show ?thesis
      unfolding f zfill_def by (simp add: length_str_nat_small)
  next
    case False
    with that have "10 \<le> nat index" "nat index < 100" by simp_all
    then show ?thesis
      unfolding f zfill_def by (simp add: length_str_nat_two)
  qed
  show "hd (format_02d index) \<noteq> CHR ''0''" if "10 \<le> index"
  proof -
    from that have n: "10 \<le> nat index" by simp
    from length_str_nat_ge [OF n] have "zfill 2 (str_nat (nat index)) = str_nat (nat index)"
      by (simp add: zfill_def)
    with hd_str_nat [of "nat index"] n show ?thesis
      unfolding f by simp
  qed
qed

lemma format_02d_2: "format_02d 2 = ''02''"
  by code_simp

lemma hyphenate_My_Folder: "map hyphenate ''My Folder'' = ''My-Folder''"
  by (simp add: hyphenate_def)

text \<open>
  C5. For every folder name and for every index and total that \<^verbatim>\<open>process_folder\<close> can
  pass (both at least 1), \<^verbatim>\<open>generate_descriptive_name\<close> returns the folder name with
  spaces and underscores replaced by hyphens and lowercased by \<^verbatim>\<open>str.lower\<close>, then,
  only when the total is more than 1, a hyphen and the index, then \<^verbatim>\<open>-enhanced-\<close>, the
  current date and \<^verbatim>\<open>.png\<close>. The index is written in decimal digits that read back
  as the index, padded with a zero to two digits and with no zero in front of a longer
  number. Where \<^verbatim>\<open>str.lower\<close> turns \<^verbatim>\<open>My-Folder\<close> into \<^verbatim>\<open>my-folder\<close>, the two
  examples of the specification hold.
\<close>

theorem generate_descriptive_name_shape:
  assumes "1 \<le> index" and "1 \<le> total_n"
  shows "generate_descriptive_name lower now folder_name index total_n =
      lower (map hyphenate folder_name)
      @ (if 1 < total_n then ''-'' @ format_02d index else [])
      @ ''-enhanced-'' @ strftime_Ymd now @ ''.png''
    \<and> digits_value (format_02d index) = Some (nat index)
    \<and> 2 \<le> length (format_02d index)
    \<and> (index < 100 \<longrightarrow> length (format_02d index) = 2)
    \<and> (10 \<le> index \<longrightarrow> hd (format_02d index) \<noteq> CHR ''0'')
    \<and> (lower ''My-Folder'' = ''my-folder'' \<longrightarrow>
          generate_descriptive_name lower now ''My Folder'' 1 1
            = ''my-folder-enhanced-'' @ strftime_Ymd now @ ''.png''
          \<and> generate_descriptive_name lower now ''My Folder'' 2 5
            = ''my-folder-02-enhanced-'' @ strftime_Ymd now @ ''.png'')"
proof -
  from assms(1) have i: "0 \<le> index" by simp
  from assms(2) have "(total_n = 1) = (\<not> 1 < total_n)" by auto
  then have shape: "generate_descriptive_name lower now folder_name index total_n =
      lower (map hyphenate folder_name)
      @ (if 1 < total_n then ''-'' @ format_02d index else [])
      @ ''-enhanced-'' @ strftime_Ymd now @ ''.png''"
    unfolding generate_descriptive_name_eq by simp
  have ex: "generate_descriptive_name lower now ''My Folder'' 1 1
            = ''my-folder-enhanced-'' @ strftime_Ymd now @ ''.png''
          \<and> generate_descriptive_name lower now ''My Folder'' 2 5
            = ''my-folder-02-enhanced-'' @ strftime_Ymd now @ ''.png''"
    if "lower ''My-Folder'' = ''my-folder''"
    unfolding generate_descriptive_name_eq hyphenate_My_Folder that format_02d_2 by simp
  from shape format_02d_pinned [OF i] ex show ?thesis
    by blast
qed

theorem generate_descriptive_name_shape_witness:
  "(1::int) \<le> 2 \<and> (1::int) \<le> 5
   \<and> ascii_lower ''My-Folder'' = ''my-folder''
   \<and> generate_descriptive_name ascii_lower sample_time ''My Folder'' 2 5
       = ''my-folder-02-enhanced-'' @ strftime_Ymd sample_time @ ''.png''
   \<and> generate_descriptive_name ascii_lower sample_time ''My Folder'' 1 1
       = ''my-folder-enhanced-'' @ strftime_Ymd sample_time @ ''.png''
   \<and> strftime_Ymd sample_time = ''20261104''
   \<and> digits_value (format_02d 2) = Some (nat 2)
   \<and> length (format_02d 2) = 2"
proof -
  have h1: "(1::int) \<le> 2" and h2: "(1::int) \<le> 5" and h3: "(2::int) < 100"
    by simp_all
  have l: "ascii_lower ''My-Folder'' = ''my-folder''"
    by code_simp
  have d: "strftime_Ymd sample_time = ''20261104''"
    by code_simp
  from generate_descriptive_name_shape [OF h1 h2, of ascii_lower sample_time "''My Folder''"]
    h1 h2 h3 l d
  show ?thesis
    by blast
qed

subsection \<open>Base64 round trip\<close>

lemma distinct_b64_alphabet: "distinct b64_alphabet"
  by (simp add: b64_alphabet_def)

lemma length_b64_alphabet: "length b64_alphabet = 64"
  by (simp add: b64_alphabet_def)

lemma b64_index_char: "n < 64 \<Longrightarrow> b64_index (b64_char n) = Some n"
  unfolding b64_index_def b64_char_def
  by (rule index_of_nth [OF distinct_b64_alphabet]) (simp add: length_b64_alphabet)

lemma b64_index_pad: "b64_index CHR ''='' = None"
  by (simp add: b64_index_def b64_alphabet_def)

lemma sextet_bounds:
  fixes x y z :: nat
  assumes "x < 256" "y < 256" "z < 256"
  shows "x div 4 < 64" "(x mod 4) * 16 + y div 16 < 64" "(y mod 16) * 4 + z div 64 < 64"
    "z mod 64 < 64" "(x mod 4) * 16 < 64" "(y mod 16) * 4 < 64"
  using assms by auto

lemma regroup_first:
  fixes x y :: nat
  assumes "y < 256"
  shows "(x div 4) * 4 + ((x mod 4) * 16 + y div 16) div 16 = x"
proof -
  have "y div 16 < 16" using assms by simp
  then have "((x mod 4) * 16 + y div 16) div 16 = x mod 4" by simp
  then show ?thesis by simp
qed

lemma regroup_second:
  fixes x y z :: nat
  assumes "y < 256" "z < 256"
  shows "(((x mod 4) * 16 + y div 16) mod 16) * 16 + ((y mod 16) * 4 + z div 64) div 4 = y"
proof -
  have "y div 16 < 16" using assms by simp
  then have a: "((x mod 4) * 16 + y div 16) mod 16 = y div 16" by simp
  have "z div 64 < 4" using assms by simp
  then have b: "((y mod 16) * 4 + z div 64) div 4 = y mod 16" by simp
  show ?thesis unfolding a b by simp
qed

lemma regroup_third:
  fixes y z :: nat
  assumes "z < 256"
  shows "(((y mod 16) * 4 + z div 64) mod 4) * 64 + z mod 64 = z"
proof -
  have "z div 64 < 4" using assms by simp
  then have a: "((y mod 16) * 4 + z div 64) mod 4 = z div 64" by simp
  show ?thesis unfolding a by simp
qed

lemma regroup_first_padded:
  fixes x :: nat
  shows "(x div 4) * 4 + ((x mod 4) * 16) div 16 = x"
  by simp

lemma regroup_second_padded:
  fixes x y :: nat
  assumes "y < 256"
  shows "(((x mod 4) * 16 + y div 16) mod 16) * 16 + ((y mod 16) * 4) div 4 = y"
proof -
  have "y div 16 < 16" using assms by simp
  then have a: "((x mod 4) * 16 + y div 16) mod 16 = y div 16" by simp
  show ?thesis unfolding a by simp
qed

lemma unat_byte_less: "unat (a :: byte) < 256"
  using unsigned_less [of a] by simp

lemma byte_of_unat: "(of_nat (unat a) :: byte) = a"
  by simp

lemma b64decode_full_group:
  assumes "n0 < 64" "n1 < 64" "n2 < 64" "n3 < 64"
  shows "b64decode (b64_char n0 # b64_char n1 # b64_char n2 # b64_char n3 # rest) =
    map_option
      (\<lambda>bs. of_nat (n0 * 4 + n1 div 16)
            # of_nat ((n1 mod 16) * 16 + n2 div 4)
            # of_nat ((n2 mod 4) * 64 + n3) # bs)
      (b64decode rest)"
  by (simp add: b64_index_char assms)

lemma b64decode_two_byte_group:
  assumes "n0 < 64" "n1 < 64" "n2 < 64"
  shows "b64decode [b64_char n0, b64_char n1, b64_char n2, CHR ''=''] =
    Some [of_nat (n0 * 4 + n1 div 16), of_nat ((n1 mod 16) * 16 + n2 div 4)]"
  by (simp add: b64_index_char b64_index_pad assms)

lemma b64decode_one_byte_group:
  assumes "n0 < 64" "n1 < 64"
  shows "b64decode [b64_char n0, b64_char n1, CHR ''='', CHR ''=''] =
    Some [of_nat (n0 * 4 + n1 div 16)]"
  by (simp add: b64_index_char b64_index_pad assms)

lemma b64decode_b64encode: "b64decode (b64encode bs) = Some bs"
proof (induction bs rule: b64encode.induct)
  case (1 a b c rest)
  note bd = unat_byte_less [of a] unat_byte_less [of b] unat_byte_less [of c]
  show ?case
    unfolding b64encode.simps b64decode_full_group [OF sextet_bounds(1-4) [OF bd]]
      regroup_first [OF bd(2)] regroup_second [OF bd(2,3)] regroup_third [OF bd(3)]
      byte_of_unat 1
    by simp
next
  case (2 a b)
  note bd = unat_byte_less [of a] unat_byte_less [of b] unat_byte_less [of b]
  show ?case
    unfolding b64encode.simps
      b64decode_two_byte_group [OF sextet_bounds(1,2,6) [OF bd]]
      regroup_first [OF bd(2)] regroup_second_padded [OF bd(2)] byte_of_unat
    by (rule refl)
next
  case (3 a)
  note bd = unat_byte_less [of a] unat_byte_less [of a] unat_byte_less [of a]
  show ?case
    unfolding b64encode.simps
      b64decode_one_byte_group [OF sextet_bounds(1,5) [OF bd]]
      regroup_first_padded byte_of_unat
    by (rule refl)
next
  case 4
  show ?case by simp
qed

subsection \<open>Image encoding\<close>

lemma is_data_uri_of_header:
  "is_data_uri_of (data_uri_header mime @ b64encode bs) mime bs"
  unfolding is_data_uri_of_def by (simp add: b64decode_b64encode)

lemma is_data_uri_of_encode:
  "is_data_uri_of (''data:'' @ mime @ '';base64,'' @ b64encode bs) mime bs"
proof -
  have "''data:'' @ mime @ '';base64,'' @ b64encode bs = data_uri_header mime @ b64encode bs"
    by (simp add: data_uri_header_def)
  then show ?thesis
    by (simp only: is_data_uri_of_header)
qed

lemma app_image_to_data_uri_readable:
  assumes "read_file fs p = Inr bs"
  shows "app_image_to_data_uri lower fs p
    = Inr (''data:'' @ dict_get app_mime_types (lower (suffix_of p)) ''image/png''
           @ '';base64,'' @ b64encode bs)"
  using assms by (simp add: app_image_to_data_uri_def)

lemma eval_image_to_data_uri_readable:
  assumes "read_file fs p = Inr bs"
  shows "eval_image_to_data_uri lower fs p
    = Inr (''data:'' @ dict_get eval_mime_types (lower (suffix_of p)) ''image/png''
           @ '';base64,'' @ b64encode bs)"
  using assms by (simp add: eval_image_to_data_uri_def)

lemma app_mime_expected:
  "map_of expected_mime ext = Some mime \<Longrightarrow> dict_get app_mime_types ext ''image/png'' = mime"
  by (auto simp: expected_mime_def app_mime_types_def dict_get_def split: if_splits)

text \<open>
  For every readable file whose lowercased extension is one of the six recognised ones,
  the encoder of the production CLI returns a data URI of the MIME type of that
  extension, and decoding the part after the header gives back the bytes of the file.
\<close>

lemma app_image_to_data_uri_round_trip:
  assumes "read_file fs p = Inr bs"
    and "map_of expected_mime (lower (suffix_of p)) = Some mime"
  shows "\<exists>uri. app_image_to_data_uri lower fs p = Inr uri \<and> is_data_uri_of uri mime bs"
  unfolding app_image_to_data_uri_readable [OF assms(1)] app_mime_expected [OF assms(2)]
  using is_data_uri_of_encode by blast


text \<open>
  C8. For every readable file whose lowercased extension is not in the MIME table of an
  encoder, that encoder does not fail: it returns a data URI of the default type
  \<^verbatim>\<open>image/png\<close> whose base64 part decodes to the bytes of the file.
\<close>

theorem image_to_data_uri_default_mime:
  assumes "read_file fs p = Inr bs"
  shows "(map_of app_mime_types (lower (suffix_of p)) = None \<longrightarrow>
            (\<exists>uri. app_image_to_data_uri lower fs p = Inr uri \<and> is_data_uri_of uri ''image/png'' bs))
    \<and> (map_of eval_mime_types (lower (suffix_of p)) = None \<longrightarrow>
            (\<exists>uri. eval_image_to_data_uri lower fs p = Inr uri \<and> is_data_uri_of uri ''image/png'' bs))"
  unfolding app_image_to_data_uri_readable [OF assms] eval_image_to_data_uri_readable [OF assms]
  using is_data_uri_of_encode [of "''image/png''" bs]
  by (simp add: dict_get_def)

theorem image_to_data_uri_default_mime_witness:
  "read_file (Dir [(''q'', Dir [(''scan.tiff'', File [73, 73, 42, 0, 8])])]) [''q'', ''scan.tiff'']
     = Inr [73, 73, 42, 0, 8]
   \<and> map_of app_mime_types (ascii_lower (suffix_of [''q'', ''scan.tiff''])) = None
   \<and> map_of eval_mime_types (ascii_lower (suffix_of [''q'', ''scan.tiff''])) = None
   \<and> (\<exists>uri. app_image_to_data_uri ascii_lower
          (Dir [(''q'', Dir [(''scan.tiff'', File [73, 73, 42, 0, 8])])]) [''q'', ''scan.tiff'']
          = Inr uri
        \<and> is_data_uri_of uri ''image/png'' [73, 73, 42, 0, 8])
   \<and> (\<exists>uri. eval_image_to_data_uri ascii_lower
          (Dir [(''q'', Dir [(''scan.tiff'', File [73, 73, 42, 0, 8])])]) [''q'', ''scan.tiff'']
          = Inr uri
        \<and> is_data_uri_of uri ''image/png'' [73, 73, 42, 0, 8])"
proof -
  have r: "read_file (Dir [(''q'', Dir [(''scan.tiff'', File [73, 73, 42, 0, 8])])])
      [''q'', ''scan.tiff''] = Inr [73, 73, 42, 0, 8]"
    by (simp add: read_file_def)
  have sfx: "ascii_lower (suffix_of [''q'', ''scan.tiff'']) = ''.tiff''"
    by code_simp
  have a: "map_of app_mime_types (ascii_lower (suffix_of [''q'', ''scan.tiff''])) = None"
    unfolding sfx by (simp add: app_mime_types_def)
  have e: "map_of eval_mime_types (ascii_lower (suffix_of [''q'', ''scan.tiff''])) = None"
    unfolding sfx by (simp add: eval_mime_types_def)
  from image_to_data_uri_default_mime [OF r] r a e
  show ?thesis by simp
qed

subsection \<open>File system operations\<close>

lemma lookup_update_other:
  "\<not> prefix p q \<Longrightarrow> \<not> prefix q p \<Longrightarrow> lookup (update t p v) q = lookup t q"
proof (induction t p v arbitrary: q rule: update.induct)
  case (1 n v)
  then show ?case by simp
next
  case (2 es c v)
  then obtain d q' where q: "q = d # q'" "d \<noteq> c"
    by (cases q) auto
  then show ?case
    by (cases v) (simp_all add: update_conv' delete_conv')
next
  case (3 es c b p v)
  from "3.prems" obtain d q' where q: "q = d # q'"
    by (cases q) auto
  show ?case
  proof (cases "d = c")
    case False
    with q show ?thesis
      by (simp add: update_conv' split: option.splits)
  next
    case True
    with q "3.prems" have np: "\<not> prefix (b # p) q'" "\<not> prefix q' (b # p)"
      by auto
    show ?thesis
    proof (cases "map_of es c")
      case None
      then show ?thesis by simp
    next
      case (Some n)
      with "3.IH" [OF Some np] q True show ?thesis
        by (simp add: update_conv')
    qed
  qed
qed simp_all

lemma lookup_Dir_Nil: "q \<noteq> [] \<Longrightarrow> lookup (Dir []) q = None"
  by (cases q) simp_all

lemma mkdir_p_lookup:
  "mkdir_p t p = Inr t' \<Longrightarrow> \<not> prefix q p \<Longrightarrow> lookup t' q = lookup t q"
proof (induction t p arbitrary: t' q rule: mkdir_p.induct)
  case (1 es)
  then show ?case by simp
next
  case (3 es c p)
  let ?child = "case map_of es c of None \<Rightarrow> Dir [] | Some n \<Rightarrow> n"
  from "3.prems"(1) obtain n' where n': "mkdir_p ?child p = Inr n'"
    and t': "t' = Dir (AList.update c n' es)"
    by (auto split: sum.splits)
  from "3.prems"(2) obtain d q' where q: "q = d # q'"
    by (cases q) auto
  show ?case
  proof (cases "d = c")
    case False
    with q t' show ?thesis by (simp add: update_conv')
  next
    case True
    with q "3.prems"(2) have np: "\<not> prefix q' p" by simp
    then have "q' \<noteq> []" by auto
    from "3.IH" [OF n' np] have "lookup n' q' = lookup ?child q'" .
    with q t' True \<open>q' \<noteq> []\<close> show ?thesis
      by (simp add: update_conv' lookup_Dir_Nil split: option.splits)
  qed
qed simp_all


lemma lookup_update_same:
  "p \<noteq> [] \<Longrightarrow> lookup t (butlast p) = Some (Dir es) \<Longrightarrow> lookup (update t p v) p = v"
proof (induction t p v arbitrary: es rule: update.induct)
  case (2 es0 c v)
  then show ?case
    by (cases v) (simp_all add: update_conv' delete_conv')
next
  case (3 es0 c b p v)
  from "3.prems"(2) obtain n where n: "map_of es0 c = Some n"
    and l: "lookup n (butlast (b # p)) = Some (Dir es)"
    by (auto split: option.splits)
  from "3.IH" [OF n _ l] n show ?case
    by (simp add: update_conv')
qed (auto split: if_splits)

lemma mkdir_p_Nil: "mkdir_p t [] = Inr t' \<Longrightarrow> t' = t"
  by (cases t) simp_all

lemma not_prefix_butlast:
  assumes "p \<noteq> []"
  shows "\<not> prefix p (butlast p)"
proof
  assume "prefix p (butlast p)"
  from prefix_length_le [OF this] have "length p \<le> length p - 1"
    unfolding length_butlast .
  moreover from assms have "length p \<noteq> 0"
    by simp
  ultimately show False
    by linarith
qed

lemma mkdir_p_parent_keeps:
  assumes "mkdir_p t (parent p) = Inr t'"
  shows "lookup t' p = lookup t p"
proof (cases "p = []")
  case True
  with assms show ?thesis
    by (simp add: parent_def mkdir_p_Nil)
next
  case False
  from mkdir_p_lookup [OF assms [unfolded parent_def] not_prefix_butlast [OF False]]
  show ?thesis .
qed

lemma mkdir_p_is_dir:
  "mkdir_p t p = Inr t' \<Longrightarrow> \<exists>es. lookup t' p = Some (Dir es)"
proof (induction t p arbitrary: t' rule: mkdir_p.induct)
  case (3 es c p)
  let ?child = "case map_of es c of None \<Rightarrow> Dir [] | Some n \<Rightarrow> n"
  from "3.prems"(1) obtain n' where n': "mkdir_p ?child p = Inr n'"
    and t': "t' = Dir (AList.update c n' es)"
    by (auto split: sum.splits)
  from "3.IH" [OF n'] t' show ?case
    by (simp add: update_conv')
qed auto

lemma write_file_state:
  "snd (write_file io t p d) = t
   \<or> (\<exists>d'. lookup t (parent p) \<noteq> None \<and> p \<noteq> []
         \<and> snd (write_file io t p d) = update t p (Some (File d')))"
  by (auto simp: write_file_def split: option.splits node.splits)

lemma write_file_lookup_other:
  assumes "\<not> prefix p q" and "\<not> prefix q p"
  shows "lookup (snd (write_file io t p d)) q = lookup t q"
  using write_file_state [of io t p d] assms
  by (auto simp: lookup_update_other)

lemma write_file_lookup_same:
  assumes "write_file io t p d = (Inr u, t')"
  shows "lookup t' p = Some (File d)"
proof -
  from assms have ne: "p \<noteq> []"
    by (auto simp: write_file_def split: if_splits)
  from assms ne obtain es where "lookup t (butlast p) = Some (Dir es)"
    and "t' = update t p (Some (File d))"
    by (auto simp: write_file_def parent_def split: option.splits node.splits)
  with ne show ?thesis
    by (simp add: lookup_update_same)
qed

lemma write_file_error_state:
  assumes "write_file io t p d = (Inl e, t')" and "write_fault io d = None"
  shows "t' = t"
  using assms
  by (auto simp: write_file_def split: if_splits option.splits node.splits)

subsection \<open>A failed image and its output path\<close>

lemma process_image_try_failure:
  assumes "process_image_try lower env fs image_path output_path model_name = (r, fs')"
    and "r \<noteq> Inr True"
    and "\<forall>d. write_fault (faults env) d = None"
  shows "lookup fs' output_path = lookup fs output_path"
proof (cases "fs' = fs")
  case True
  then show ?thesis by simp
next
  case False
  with assms(1,2) obtain fs1 d e where m: "mkdir_p fs (parent output_path) = Inr fs1"
    and w: "write_file (faults env) fs1 output_path d = (Inl e, fs')"
    by (auto simp: process_image_try_def Let_def
        split: option.splits sum.splits if_splits prod.splits)
  from write_file_error_state [OF w] assms(3) have "fs' = fs1"
    by simp
  with mkdir_p_parent_keeps [OF m] show ?thesis
    by simp
qed

lemma process_image_try_success:
  assumes "process_image_try lower env fs image_path output_path model_name = (Inr True, fs')"
  shows "\<exists>d. lookup fs' output_path = Some (File d)"
  using assms
  by (auto simp: process_image_try_def Let_def write_file_lookup_same
      split: option.splits sum.splits if_splits prod.splits)

lemma download_image_try_failure:
  assumes "download_image_try env fs url output_path = (r, fs')"
    and "r \<noteq> Inr True"
    and "\<forall>d. write_fault (faults env) d = None"
  shows "lookup fs' output_path = lookup fs output_path"
proof (cases "fs' = fs")
  case True
  then show ?thesis by simp
next
  case False
  with assms(1,2) obtain fs1 d e where m: "mkdir_p fs (parent output_path) = Inr fs1"
    and w: "write_file (faults env) fs1 output_path d = (Inl e, fs')"
    by (auto simp: download_image_try_def
        split: option.splits sum.splits if_splits prod.splits)
  from write_file_error_state [OF w] assms(3) have "fs' = fs1"
    by simp
  with mkdir_p_parent_keeps [OF m] show ?thesis
    by simp
qed

lemma download_image_try_success:
  assumes "download_image_try env fs url output_path = (Inr True, fs')"
  shows "\<exists>d. lookup fs' output_path = Some (File d)"
  using assms
  by (auto simp: download_image_try_def write_file_lookup_same
      split: option.splits sum.splits if_splits prod.splits)

lemma lookup_append:
  "lookup t (p @ q) = (case lookup t p of None \<Rightarrow> None | Some n \<Rightarrow> lookup n q)"
proof (induction p arbitrary: t)
  case Nil
  show ?case by simp
next
  case (Cons c p)
  show ?case
    by (cases t) (simp_all add: Cons split: option.splits)
qed

lemma lookup_child_parent_dir:
  assumes "lookup t (p @ [x]) = Some n"
  shows "\<exists>es. lookup t p = Some (Dir es)"
proof -
  from assms obtain m where m: "lookup t p = Some m" and x: "lookup m [x] = Some n"
    by (auto simp: lookup_append split: option.splits)
  from x obtain es where "m = Dir es"
    by (cases m) simp_all
  with m show ?thesis by simp
qed

text \<open>
  C9, as the claim states it, fails when the write into the opened output file fails:
  \<^verbatim>\<open>open(output_path, 'wb')\<close> has created the file by then, the exception of
  \<^verbatim>\<open>f.write\<close> is caught, and \<^verbatim>\<open>process_image\<close> returns \<^verbatim>\<open>False\<close> with an empty
  output file on disk; \<^verbatim>\<open>download_image\<close> of the evaluation harness does the same.
\<close>

theorem process_image_disk_full_counterexample:
  "lookup (Dir [(''q'', Dir [(''a.png'', File [1])])]) [''out'', ''a-enhanced.png''] = None
   \<and> process_image ascii_lower env_disk_full (Dir [(''q'', Dir [(''a.png'', File [1])])])
      [''q'', ''a.png''] [''out'', ''a-enhanced.png''] ''nano-banana''
     = (False, Dir [(''q'', Dir [(''a.png'', File [1])]),
                    (''out'', Dir [(''a-enhanced.png'', File [])])])
   \<and> download_image env_disk_full (Dir [(''q'', Dir [(''a.png'', File [1])])])
      (PStr ''https://replicate.delivery/out.png'') [''out'', ''a-enhanced.png'']
     = (False, Dir [(''q'', Dir [(''a.png'', File [1])]),
                    (''out'', Dir [(''a-enhanced.png'', File [])])])"
  by code_simp

text \<open>
  C9, amended. Whenever \<^verbatim>\<open>process_image\<close> returns \<^verbatim>\<open>False\<close>, or \<^verbatim>\<open>download_image\<close>
  of the evaluation harness does, and the write into the opened output file is not
  what failed (the failure lies in the encoding, the remote call, the normalisation,
  the download, its status, the creation of the directory or the opening of the file),
  the output path holds after the call what it held before: no bytes are written to it
  and no output file is created. When either returns \<^verbatim>\<open>True\<close> the output path holds a
  file.
\<close>

theorem failure_before_write_leaves_output_path:
  assumes "\<forall>d. write_fault (faults env) d = None"
  shows "(process_image lower env fs image_path output_path model_name = (False, fs')
      \<longrightarrow> lookup fs' output_path = lookup fs output_path)
   \<and> (process_image lower env fs image_path output_path model_name = (True, fs')
      \<longrightarrow> (\<exists>d. lookup fs' output_path = Some (File d)))
   \<and> (download_image env fs url output_path = (False, fs'')
      \<longrightarrow> lookup fs'' output_path = lookup fs output_path)
   \<and> (download_image env fs url output_path = (True, fs'')
      \<longrightarrow> (\<exists>d. lookup fs'' output_path = Some (File d)))"
proof (intro conjI impI)
  assume "process_image lower env fs image_path output_path model_name = (False, fs')"
  then obtain r where "process_image_try lower env fs image_path output_path model_name = (r, fs')"
    and "r \<noteq> Inr True"
    by (auto simp: process_image_def split: prod.splits sum.splits)
  then show "lookup fs' output_path = lookup fs output_path"
    using assms by (rule process_image_try_failure)
next
  assume "process_image lower env fs image_path output_path model_name = (True, fs')"
  then have "process_image_try lower env fs image_path output_path model_name = (Inr True, fs')"
    by (auto simp: process_image_def split: prod.splits sum.splits)
  then show "\<exists>d. lookup fs' output_path = Some (File d)"
    by (rule process_image_try_success)
next
  assume "download_image env fs url output_path = (False, fs'')"
  then obtain r where "download_image_try env fs url output_path = (r, fs'')"
    and "r \<noteq> Inr True"
    by (auto simp: download_image_def split: prod.splits sum.splits)
  then show "lookup fs'' output_path = lookup fs output_path"
    using assms by (rule download_image_try_failure)
next
  assume "download_image env fs url output_path = (True, fs'')"
  then have "download_image_try env fs url output_path = (Inr True, fs'')"
    by (auto simp: download_image_def split: prod.splits sum.splits)
  then show "\<exists>d. lookup fs'' output_path = Some (File d)"
    by (rule download_image_try_success)
qed

theorem failure_before_write_leaves_output_path_witness:
  "(\<forall>d. write_fault (faults env_remote_down) d = None)
   \<and> (\<forall>d. write_fault (faults env_ok) d = None)
   \<and> process_image ascii_lower env_remote_down (Dir [(''q'', Dir [(''a.png'', File [1])])])
      [''q'', ''a.png''] [''out'', ''a-enhanced.png''] ''nano-banana''
     = (False, Dir [(''q'', Dir [(''a.png'', File [1])])])
   \<and> download_image env_remote_down (Dir [(''q'', Dir [(''a.png'', File [1])])])
      (PStr ''https://replicate.delivery/out.png'') [''out'', ''a-enhanced.png'']
     = (False, Dir [(''q'', Dir [(''a.png'', File [1])])])
   \<and> lookup (Dir [(''q'', Dir [(''a.png'', File [1])])]) [''out'', ''a-enhanced.png''] = None
   \<and> process_image ascii_lower env_ok (Dir [(''q'', Dir [(''a.png'', File [1])])])
      [''q'', ''a.png''] [''out'', ''a-enhanced.png''] ''nano-banana''
     = (True, Dir [(''q'', Dir [(''a.png'', File [1])]),
                   (''out'', Dir [(''a-enhanced.png'', File [137, 80, 78, 71])])])
   \<and> download_image env_ok (Dir [(''q'', Dir [(''a.png'', File [1])])])
      (PStr ''https://replicate.delivery/out.png'') [''out'', ''a-enhanced.png'']
     = (True, Dir [(''q'', Dir [(''a.png'', File [1])]),
                   (''out'', Dir [(''a-enhanced.png'', File [137, 80, 78, 71])])])
   \<and> lookup (Dir [(''q'', Dir [(''a.png'', File [1])]),
                   (''out'', Dir [(''a-enhanced.png'', File [137, 80, 78, 71])])])
          [''out'', ''a-enhanced.png''] \<noteq> None"
proof -
  let ?fs = "Dir [(''q'', Dir [(''a.png'', File [1])])]"
  let ?fs' = "Dir [(''q'', Dir [(''a.png'', File [1])]),
                   (''out'', Dir [(''a-enhanced.png'', File [137, 80, 78, 71])])]"
  have nf1: "\<forall>d. write_fault (faults env_remote_down) d = None"
    by (simp add: env_remote_down_def no_faults_def)
  have nf2: "\<forall>d. write_fault (faults env_ok) d = None"
    by (simp add: env_ok_def no_faults_def)
  have p1: "process_image ascii_lower env_remote_down ?fs [''q'', ''a.png'']
      [''out'', ''a-enhanced.png''] ''nano-banana'' = (False, ?fs)"
    by code_simp
  have d1: "download_image env_remote_down ?fs (PStr ''https://replicate.delivery/out.png'')
      [''out'', ''a-enhanced.png''] = (False, ?fs)"
    by code_simp
  have p2: "process_image ascii_lower env_ok ?fs [''q'', ''a.png'']
      [''out'', ''a-enhanced.png''] ''nano-banana'' = (True, ?fs')"
    by code_simp
  have d2: "download_image env_ok ?fs (PStr ''https://replicate.delivery/out.png'')
      [''out'', ''a-enhanced.png''] = (True, ?fs')"
    by code_simp
  have n: "lookup ?fs [''out'', ''a-enhanced.png''] = None"
    by simp
  from failure_before_write_leaves_output_path
    [OF nf2, of ascii_lower ?fs "[''q'', ''a.png'']" "[''out'', ''a-enhanced.png'']"
      "''nano-banana''" ?fs' "PStr ''https://replicate.delivery/out.png''" ?fs']
    p2 d2
  have "lookup ?fs' [''out'', ''a-enhanced.png''] \<noteq> None"
    by auto
  with p1 d1 p2 d2 n nf1 nf2 show ?thesis
    by blast
qed

subsection \<open>Per-image failures in the evaluation harness\<close>

text \<open>
  C3 holds for the production CLI, where \<^verbatim>\<open>process_image\<close> wraps every step in its
  \<^verbatim>\<open>try\<close>, but not for the evaluation harness: its \<^verbatim>\<open>main\<close> calls
  \<^verbatim>\<open>image_to_data_uri\<close> outside every \<^verbatim>\<open>try\<close>. With a first source entry
  \<^verbatim>\<open>a.png\<close> that cannot be read (a file without permission, or a directory of that
  name, which \<^verbatim>\<open>glob("*.png")\<close> also yields) the exception ends the run: the readable
  \<^verbatim>\<open>b.png\<close> is never processed, no result is recorded and no log is written.
\<close>

theorem eval_main_encoding_failure_ends_run:
  "eval_main ascii_lower no_faults (Some ''r8_key'') sample_time (\<lambda>img model. env_ok)
      (Dir [(''source'', Dir [(''a.png'', Unreadable), (''b.png'', File [137, 80, 78, 71])])])
     = (Inl PermissionError,
        Dir [(''source'', Dir [(''a.png'', Unreadable), (''b.png'', File [137, 80, 78, 71])]),
             (''runs'', Dir [(''20261104-093000'', Dir [])])])
   \<and> eval_main ascii_lower no_faults (Some ''r8_key'') sample_time (\<lambda>img model. env_ok)
      (Dir [(''source'', Dir [(''a.png'', Dir []), (''b.png'', File [137, 80, 78, 71])])])
     = (Inl IsADirectoryError,
        Dir [(''source'', Dir [(''a.png'', Dir []), (''b.png'', File [137, 80, 78, 71])]),
             (''runs'', Dir [(''20261104-093000'', Dir [])])])"
  by code_simp

subsection \<open>Relocation of the queue folder\<close>

lemma process_image_try_state:
  assumes "process_image_try lower env fs image_path output_path model_name = (r, fs')"
  shows "fs' = fs
    \<or> (\<exists>fs1. mkdir_p fs (parent output_path) = Inr fs1
          \<and> (fs' = fs1 \<or> (\<exists>d. fs' = snd (write_file (faults env) fs1 output_path d))))"
proof (cases "fs' = fs")
  case True
  then show ?thesis by simp
next
  case False
  with assms obtain fs1 d w where "mkdir_p fs (parent output_path) = Inr fs1"
    and "write_file (faults env) fs1 output_path d = (w, fs')"
    by (auto simp: process_image_try_def Let_def
        split: option.splits sum.splits if_splits prod.splits)
  then have "mkdir_p fs (parent output_path) = Inr fs1"
    and "fs' = snd (write_file (faults env) fs1 output_path d)"
    by simp_all
  then show ?thesis by blast
qed

lemma process_image_lookup_other:
  assumes "process_image lower env fs image_path (output_dir @ [x]) model_name = (ok, fs')"
    and "\<not> prefix q output_dir" and "\<not> prefix output_dir q"
  shows "lookup fs' q = lookup fs q"
proof -
  from assms(1) obtain r where
    "process_image_try lower env fs image_path (output_dir @ [x]) model_name = (r, fs')"
    by (auto simp: process_image_def split: prod.splits sum.splits)
  from process_image_try_state [OF this]
  consider "fs' = fs"
    | fs1 where "mkdir_p fs output_dir = Inr fs1" "fs' = fs1"
    | fs1 d where "mkdir_p fs output_dir = Inr fs1"
        "fs' = snd (write_file (faults env) fs1 (output_dir @ [x]) d)"
    by (auto simp: parent_def)
  then show ?thesis
  proof cases
    case 1
    then show ?thesis by simp
  next
    case 2
    with mkdir_p_lookup [OF 2(1) assms(2)] show ?thesis by simp
  next
    case 3
    from assms(3) have a: "\<not> prefix (output_dir @ [x]) q"
      using append_prefixD by blast
    from assms(2,3) have b: "\<not> prefix q (output_dir @ [x])"
      by auto
    from write_file_lookup_other [OF a b] 3(2) mkdir_p_lookup [OF 3(1) assms(2)]
    show ?thesis by simp
  qed
qed

lemma process_images_lookup_other:
  assumes "process_images lower envs model_name output_dir folder_name total_n i images sc fs
      = (fc, progress, fs')"
    and "\<not> prefix q output_dir" and "\<not> prefix output_dir q"
  shows "lookup fs' q = lookup fs q"
  using assms(1)
proof (induction images arbitrary: i sc fs fc progress fs')
  case Nil
  then show ?case by simp
next
  case (Cons image_path rest)
  let ?x = "generate_descriptive_name lower (clock (envs i)) folder_name (int i) (int total_n)"
  obtain ok fs1 where p: "process_image lower (envs i) fs image_path (output_dir @ [?x]) model_name
      = (ok, fs1)"
    by (cases "process_image lower (envs i) fs image_path (output_dir @ [?x]) model_name")
  obtain fc' progress' fs2 where r:
    "process_images lower envs model_name output_dir folder_name total_n (i + 1) rest
       (if ok then sc + 1 else sc) fs1 = (fc', progress', fs2)"
    by (metis prod_cases3)
  from Cons.prems p r have "fs' = fs2"
    by (simp add: Let_def)
  with Cons.IH [OF r] process_image_lookup_other [OF p assms(2,3)]
  show ?case by simp
qed

lemma process_images_count:
  assumes "process_images lower envs model_name output_dir folder_name total_n i images sc fs
      = (fc, progress, fs')"
  shows "length progress = length images \<and> fc = sc + length (filter id progress)"
  using assms
proof (induction images arbitrary: i sc fs fc progress fs')
  case Nil
  then show ?case by simp
next
  case (Cons image_path rest)
  let ?x = "generate_descriptive_name lower (clock (envs i)) folder_name (int i) (int total_n)"
  obtain ok fs1 where p: "process_image lower (envs i) fs image_path (output_dir @ [?x]) model_name
      = (ok, fs1)"
    by (cases "process_image lower (envs i) fs image_path (output_dir @ [?x]) model_name")
  obtain fc' progress' fs2 where r:
    "process_images lower envs model_name output_dir folder_name total_n (i + 1) rest
       (if ok then sc + 1 else sc) fs1 = (fc', progress', fs2)"
    by (metis prod_cases3)
  from Cons.prems p r have e: "fc = fc'" "progress = ok # progress'"
    by (simp_all add: Let_def)
  from Cons.IH [OF r] e show ?case
    by (cases ok) simp_all
qed

lemma process_folder_lookup_other:
  assumes "process_folder lower envs fs folder model_name = (r, progress, fs')"
    and "\<not> prefix q (ENHANCED_DIR @ [name folder])"
    and "\<not> prefix (ENHANCED_DIR @ [name folder]) q"
  shows "lookup fs' q = lookup fs q"
proof (cases "get_images_in_folder lower fs folder")
  case (Inl e)
  with assms(1) show ?thesis
    by (simp add: process_folder_def)
next
  case (Inr images)
  show ?thesis
  proof (cases "images = []")
    case True
    with Inr assms(1) show ?thesis
      by (simp add: process_folder_def)
  next
    case False
    show ?thesis
    proof (cases "mkdir_p fs (ENHANCED_DIR @ [name folder])")
      case (Inl e)
      with Inr False assms(1) show ?thesis
        by (simp add: process_folder_def)
    next
      case m: (Inr fs1)
      obtain sc pr fs2 where l:
        "process_images lower envs model_name (ENHANCED_DIR @ [name folder]) (name folder)
           (length images) 1 images 0 fs1 = (sc, pr, fs2)"
        by (metis prod_cases3)
      with Inr False m assms(1) have "fs' = fs2"
        by (simp add: process_folder_def Let_def)
      with process_images_lookup_other [OF l assms(2,3)] mkdir_p_lookup [OF m assms(2)]
      show ?thesis by simp
    qed
  qed
qed

lemma process_folder_count:
  assumes "process_folder lower envs fs folder model_name = (Inr (success, total_n), progress, fs')"
  shows "length progress = total_n \<and> success = length (filter id progress)"
proof (cases "get_images_in_folder lower fs folder")
  case (Inl e)
  with assms show ?thesis
    by (simp add: process_folder_def)
next
  case (Inr images)
  show ?thesis
  proof (cases "images = []")
    case True
    with Inr assms show ?thesis
      by (auto simp: process_folder_def)
  next
    case False
    show ?thesis
    proof (cases "mkdir_p fs (ENHANCED_DIR @ [name folder])")
      case (Inl e)
      with Inr False assms show ?thesis
        by (simp add: process_folder_def)
    next
      case m: (Inr fs1)
      obtain sc pr fs2 where l:
        "process_images lower envs model_name (ENHANCED_DIR @ [name folder]) (name folder)
           (length images) 1 images 0 fs1 = (sc, pr, fs2)"
        by (metis prod_cases3)
      with Inr False m assms have "success = sc" "total_n = length images" "progress = pr"
        by (simp_all add: process_folder_def Let_def)
      with process_images_count [OF l] show ?thesis by simp
    qed
  qed
qed

lemma all_true_of_full_count:
  assumes "length (filter id progress) = length progress"
  shows "\<forall>ok \<in> set progress. ok"
proof -
  from assms have "filter id progress = progress"
    by (metis length_filter_le filter_True filter_id_conv length_filter_less not_less_iff_gr_or_eq)
  then show ?thesis
    by (metis filter_id_conv id_apply)
qed

lemma menu_loop_in_set:
  "menu_loop folders choices = Inr (Some f) \<Longrightarrow> f \<in> set folders"
  by (induction folders choices rule: menu_loop.induct)
    (auto simp: Let_def split: if_splits)

lemma selected_folder_in_queue:
  assumes "selected_folder c fs = Inr (Some folder)"
  shows "\<exists>n es. folder = QUEUE_DIR @ [n] \<and> lookup fs folder = Some (Dir es)"
proof -
  from assms obtain folders where g: "get_queue_folders fs = Inr folders"
    and "display_folder_menu folders (folder_choices c) = Inr (Some folder)"
    by (auto simp: selected_folder_def split: sum.splits)
  then have "folder \<in> set folders"
    by (auto simp: display_folder_menu_def menu_loop_in_set split: if_splits)
  with g obtain entries n nd where it: "iterdir fs QUEUE_DIR = Inr entries"
    and n: "(n, nd) \<in> set entries" "is_dir_node nd" "folder = QUEUE_DIR @ [n]"
    by (auto simp: get_queue_folders_def split: if_splits sum.splits)
  from it obtain es where q: "lookup fs QUEUE_DIR = Some (Dir es)"
    and e: "entries = map (\<lambda>c. (c, the (map_of es c))) (remdups (map fst es))"
    by (auto simp: iterdir_def split: option.splits node.splits)
  from n(1) e have "n \<in> fst ` set es" "nd = the (map_of es n)"
    by auto
  then have "map_of es n = Some nd"
    by (metis map_of_eq_None_iff option.collapse)
  with q have "lookup fs (QUEUE_DIR @ [n]) = Some nd"
    by (simp add: lookup_append)
  moreover from n(2) obtain es' where "nd = Dir es'"
    by (cases nd) simp_all
  ultimately show ?thesis
    using n(3) by blast
qed

lemma queue_enhanced_apart:
  "\<not> prefix (QUEUE_DIR @ [n]) (ENHANCED_DIR @ [m])"
  "\<not> prefix (ENHANCED_DIR @ [m]) (QUEUE_DIR @ [n])"
  "\<not> prefix (QUEUE_DIR @ [n]) PROCESSED_DIR"
  by (simp_all add: QUEUE_DIR_def ENHANCED_DIR_def PROCESSED_DIR_def IMAGES_DIR_def)

lemma move_to_processed_failure:
  assumes "move_to_processed now fs folder = (Inl e, fs')"
    and "\<not> prefix folder PROCESSED_DIR"
  shows "lookup fs' folder = lookup fs folder"
proof (cases "mkdir_p fs PROCESSED_DIR")
  case (Inl e')
  with assms(1) show ?thesis
    by (simp add: move_to_processed_def)
next
  case (Inr fs1)
  with assms(1) have "fs' = fs1"
    by (auto simp: move_to_processed_def Let_def split: sum.splits)
  with mkdir_p_lookup [OF Inr assms(2)] show ?thesis
    by simp
qed


subsection \<open>A folder without images\<close>

text \<open>
  C6, as the claim states it, fails: \<^verbatim>\<open>process_folder\<close> returns \<^verbatim>\<open>(0, 0)\<close> before it
  creates the output directory, so for a folder without images the subdirectory under
  the enhanced root does not exist afterwards.
\<close>

theorem process_folder_no_images_no_mkdir_counterexample:
  "get_images_in_folder ascii_lower sample_fs_no_images (QUEUE_DIR @ [''Retro'']) = Inr []
   \<and> fst (process_folder ascii_lower (\<lambda>i. env_ok) sample_fs_no_images (QUEUE_DIR @ [''Retro''])
          ''nano-banana'') = Inr (0, 0)
   \<and> \<not> exists_path
        (snd (snd (process_folder ascii_lower (\<lambda>i. env_ok) sample_fs_no_images (QUEUE_DIR @ [''Retro''])
          ''nano-banana'')))
        (ENHANCED_DIR @ [''Retro''])"
  by code_simp

text \<open>
  C6, amended. For every queue folder containing no eligible images, \<^verbatim>\<open>process_folder\<close>
  returns \<^verbatim>\<open>(0, 0)\<close> without error and without any effect on the file system (the
  output subdirectory is not created, nothing is written); a run of the CLI on such a
  folder leaves the file system as it was and does not reach the relocation question.
\<close>

theorem process_folder_no_images:
  assumes "get_images_in_folder lower fs folder = Inr []"
  shows "process_folder lower envs fs folder model_name = (Inr (0, 0), [], fs)
    \<and> (selected_folder c fs = Inr (Some folder) \<and> main lower c envs move_time fs = (result, fs')
        \<longrightarrow> fs' = fs \<and> (\<forall>s. result = Inr s \<longrightarrow> \<not> move_prompt_shown s))"
proof -
  have pf: "process_folder lower envs fs folder model_name = (Inr (0, 0), [], fs)" for model_name
    using assms by (simp add: process_folder_def)
  have "fs' = fs \<and> (\<forall>s. result = Inr s \<longrightarrow> \<not> move_prompt_shown s)"
    if "selected_folder c fs = Inr (Some folder)" and "main lower c envs move_time fs = (result, fs')"
    using that(2)
    by (auto simp: main_def that(1) assms pf split: if_splits sum.splits)
  with pf show ?thesis
    by blast
qed

theorem process_folder_no_images_witness:
  "get_images_in_folder ascii_lower sample_fs_no_images (QUEUE_DIR @ [''Retro'']) = Inr []
   \<and> selected_folder sample_cli sample_fs_no_images = Inr (Some (QUEUE_DIR @ [''Retro'']))
   \<and> process_folder ascii_lower (\<lambda>i. env_ok) sample_fs_no_images (QUEUE_DIR @ [''Retro'']) ''nano-banana''
       = (Inr (0, 0), [], sample_fs_no_images)
   \<and> snd (main ascii_lower sample_cli (\<lambda>i. env_ok) sample_time sample_fs_no_images) = sample_fs_no_images
   \<and> fst (main ascii_lower sample_cli (\<lambda>i. env_ok) sample_time sample_fs_no_images) = Inr Failed
   \<and> \<not> move_prompt_shown Failed"
proof -
  let ?m = "main ascii_lower sample_cli (\<lambda>i. env_ok) sample_time sample_fs_no_images"
  have g: "get_images_in_folder ascii_lower sample_fs_no_images (QUEUE_DIR @ [''Retro'']) = Inr []"
    by code_simp
  have sel: "selected_folder sample_cli sample_fs_no_images = Inr (Some (QUEUE_DIR @ [''Retro'']))"
    by code_simp
  have run: "?m = (fst ?m, snd ?m)"
    by simp
  from process_folder_no_images
    [OF g, of "\<lambda>i. env_ok" "''nano-banana''" sample_cli sample_time "fst ?m" "snd ?m"]
    g sel run
  have "process_folder ascii_lower (\<lambda>i. env_ok) sample_fs_no_images (QUEUE_DIR @ [''Retro'']) ''nano-banana''
       = (Inr (0, 0), [], sample_fs_no_images)"
    and "snd ?m = sample_fs_no_images"
    by blast+
  moreover have "fst ?m = Inr Failed"
    by code_simp
  ultimately show ?thesis
    using g sel by simp
qed

subsection \<open>Moving a folder to the processed root\<close>

lemma rename_result:
  assumes "rename fs src dst = Inr fs'" and "src \<noteq> dst"
  shows "\<exists>n es. lookup fs src = Some n \<and> lookup fs (parent dst) = Some (Dir es)
           \<and> src \<noteq> [] \<and> dst \<noteq> [] \<and> \<not> prefix src dst
           \<and> fs' = update (update fs src None) dst (Some n)"
  using assms
  by (auto simp: rename_def split: option.splits node.splits if_splits)

lemma lookup_parent_dir:
  assumes "lookup t p = Some n" and "p \<noteq> []"
  shows "\<exists>es. lookup t (butlast p) = Some (Dir es)"
proof -
  from assms(2) have "butlast p @ [last p] = p"
    by simp
  with assms(1) have "lookup t (butlast p @ [last p]) = Some n"
    by simp
  then show ?thesis
    by (rule lookup_child_parent_dir)
qed

lemma update_keeps_dir:
  "lookup t q = Some (Dir es) \<Longrightarrow> \<not> prefix p q
    \<Longrightarrow> \<exists>es'. lookup (update t p v) q = Some (Dir es')"
proof (induction t p v arbitrary: q es rule: update.induct)
  case (2 es0 c v)
  show ?case
  proof (cases q)
    case Nil
    then show ?thesis by simp
  next
    case (Cons d q')
    with "2.prems" have "d \<noteq> c" by auto
    with Cons "2.prems"(1) show ?thesis
      by (cases v) (simp_all add: update_conv' delete_conv')
  qed
next
  case (3 es0 c b p v)
  show ?case
  proof (cases q)
    case Nil
    then show ?thesis by (simp split: option.splits)
  next
    case (Cons d q')
    show ?thesis
    proof (cases "d = c")
      case False
      with Cons "3.prems"(1) show ?thesis
        by (simp add: update_conv' split: option.splits)
    next
      case True
      with Cons "3.prems"(1) obtain n where n: "map_of es0 c = Some n"
        and l: "lookup n q' = Some (Dir es)"
        by (auto split: option.splits)
      from True Cons "3.prems"(2) have "\<not> prefix (b # p) q'"
        by simp
      from "3.IH" [OF n l this] n True Cons show ?thesis
        by (simp add: update_conv')
    qed
  qed
qed auto

lemma rename_moves:
  assumes r: "rename fs src dst = Inr fs'"
    and ne: "\<not> prefix src dst" "\<not> prefix dst src"
  shows "lookup fs' dst = lookup fs src"
    and "lookup fs' src = None"
    and "\<not> prefix src q \<Longrightarrow> \<not> prefix q src \<Longrightarrow> \<not> prefix dst q \<Longrightarrow> \<not> prefix q dst
          \<Longrightarrow> lookup fs' q = lookup fs q"
proof -
  from ne have "src \<noteq> dst"
    by auto
  from rename_result [OF r this] obtain n es where n: "lookup fs src = Some n"
    and pd: "lookup fs (parent dst) = Some (Dir es)"
    and s: "src \<noteq> []" "dst \<noteq> []"
    and fs': "fs' = update (update fs src None) dst (Some n)"
    by blast
  from lookup_parent_dir [OF n s(1)] obtain es' where ps: "lookup fs (butlast src) = Some (Dir es')"
    by blast
  have a: "\<not> prefix src (butlast dst)"
    using ne(1) by (metis prefix_order.trans prefixeq_butlast)
  have b: "\<not> prefix (butlast dst) src \<or> True"
    by simp
  have gone: "lookup (update fs src None) src = None"
    using lookup_update_same [OF s(1) ps] .
  have "\<exists>es. lookup (update fs src None) (butlast dst) = Some (Dir es)"
    using update_keeps_dir [OF pd [unfolded parent_def] a] .
  then obtain es2 where "lookup (update fs src None) (butlast dst) = Some (Dir es2)"
    by blast
  from lookup_update_same [OF s(2) this] fs' n show "lookup fs' dst = lookup fs src"
    by simp
  from fs' gone ne show "lookup fs' src = None"
    by (simp add: lookup_update_other)
  show "lookup fs' q = lookup fs q"
    if "\<not> prefix src q" "\<not> prefix q src" "\<not> prefix dst q" "\<not> prefix q dst"
    using that fs' by (simp add: lookup_update_other)
qed

lemma name_queue_folder: "name (QUEUE_DIR @ [n]) = n"
  by (simp add: name_def)

lemma processed_apart:
  "\<not> prefix (QUEUE_DIR @ [n]) (PROCESSED_DIR @ [x])"
  "\<not> prefix (PROCESSED_DIR @ [x]) (QUEUE_DIR @ [n])"
  "\<not> prefix (PROCESSED_DIR @ [x]) PROCESSED_DIR"
  "x \<noteq> y \<Longrightarrow> \<not> prefix (PROCESSED_DIR @ [x]) (PROCESSED_DIR @ [y])"
  by (simp_all add: QUEUE_DIR_def PROCESSED_DIR_def IMAGES_DIR_def)

lemma processed_destination_queue_folder:
  "processed_destination now fs (QUEUE_DIR @ [n]) =
    (if lookup fs (PROCESSED_DIR @ [n]) = None then PROCESSED_DIR @ [n]
     else PROCESSED_DIR @ [n @ ''-'' @ strftime_Ymd_HMS now])"
  by (simp add: processed_destination_def Let_def exists_path_def name_queue_folder)

lemma move_to_processed_ok:
  assumes "move_to_processed now fs (QUEUE_DIR @ [n]) = (Inr d, fs')"
  shows "d = (if lookup fs (PROCESSED_DIR @ [n]) = None then PROCESSED_DIR @ [n]
              else PROCESSED_DIR @ [n @ ''-'' @ strftime_Ymd_HMS now])"
    and "lookup fs' d = lookup fs (QUEUE_DIR @ [n])"
    and "lookup fs' (QUEUE_DIR @ [n]) = None"
    and "PROCESSED_DIR @ [x] \<noteq> d \<Longrightarrow> lookup fs' (PROCESSED_DIR @ [x]) = lookup fs (PROCESSED_DIR @ [x])"
proof -
  let ?src = "QUEUE_DIR @ [n]"
  obtain fs1 where m: "mkdir_p fs PROCESSED_DIR = Inr fs1"
    using assms by (cases "mkdir_p fs PROCESSED_DIR") (simp_all add: move_to_processed_def)
  have r: "rename fs1 ?src d = Inr fs'" and d: "d = processed_destination now fs1 ?src"
    using assms m
    by (simp_all add: move_to_processed_def Let_def split: sum.splits)
  have q_same: "lookup fs1 ?src = lookup fs ?src"
    by (rule mkdir_p_lookup [OF m queue_enhanced_apart(3)])
  have p_same: "lookup fs1 (PROCESSED_DIR @ [z]) = lookup fs (PROCESSED_DIR @ [z])" for z
    by (rule mkdir_p_lookup [OF m processed_apart(3)])
  show d': "d = (if lookup fs (PROCESSED_DIR @ [n]) = None then PROCESSED_DIR @ [n]
              else PROCESSED_DIR @ [n @ ''-'' @ strftime_Ymd_HMS now])"
    unfolding d processed_destination_queue_folder p_same ..
  then obtain y where y: "d = PROCESSED_DIR @ [y]"
    by (cases "lookup fs (PROCESSED_DIR @ [n]) = None") simp_all
  have ry: "rename fs1 ?src (PROCESSED_DIR @ [y]) = Inr fs'"
    using r unfolding y .
  note mv = rename_moves [OF ry processed_apart(1,2)]
  show "lookup fs' d = lookup fs ?src"
    unfolding y mv(1) q_same ..
  show "lookup fs' ?src = None"
    by (rule mv(2))
  show "lookup fs' (PROCESSED_DIR @ [x]) = lookup fs (PROCESSED_DIR @ [x])"
    if "PROCESSED_DIR @ [x] \<noteq> d"
  proof -
    from that have "x \<noteq> y"
      unfolding y by simp
    then have a: "\<not> prefix (PROCESSED_DIR @ [y]) (PROCESSED_DIR @ [x])"
      and b: "\<not> prefix (PROCESSED_DIR @ [x]) (PROCESSED_DIR @ [y])"
      by (simp_all add: processed_apart(4))
    have "lookup fs' (PROCESSED_DIR @ [x]) = lookup fs1 (PROCESSED_DIR @ [x])"
      by (rule mv(3) [OF processed_apart(1,2) a b])
    then show ?thesis
      unfolding p_same .
  qed
qed


lemma move_to_processed_source_exists:
  assumes "move_to_processed now fs (QUEUE_DIR @ [n]) = (Inr d, fs')"
  shows "lookup fs (QUEUE_DIR @ [n]) \<noteq> None"
proof -
  obtain fs1 where m: "mkdir_p fs PROCESSED_DIR = Inr fs1"
    using assms by (cases "mkdir_p fs PROCESSED_DIR") (simp_all add: move_to_processed_def)
  have "rename fs1 (QUEUE_DIR @ [n]) d = Inr fs'"
    using assms m
    by (simp_all add: move_to_processed_def Let_def split: sum.splits)
  then have "lookup fs1 (QUEUE_DIR @ [n]) \<noteq> None"
    by (auto simp: rename_def split: option.splits)
  then show ?thesis
    unfolding mkdir_p_lookup [OF m queue_enhanced_apart(3)] .
qed

text \<open>
  C7, as the claim states it, fails for two calls within one second of the clock when
  the plain name is already taken under the processed root: both calls settle on the
  same timestamped destination, and the second call's rename raises because that
  directory exists and is not empty.
\<close>

theorem move_to_processed_same_second_counterexample:
  "fst (move_to_processed sample_time sample_fs_processed_before (QUEUE_DIR @ [''Sprint Plan'']))
      = Inr (PROCESSED_DIR @ [''Sprint Plan-20261104-093000''])
   \<and> processed_destination sample_time
        (requeue (snd (move_to_processed sample_time sample_fs_processed_before
           (QUEUE_DIR @ [''Sprint Plan'']))) ''Sprint Plan'')
        (QUEUE_DIR @ [''Sprint Plan''])
      = PROCESSED_DIR @ [''Sprint Plan-20261104-093000'']
   \<and> fst (move_to_processed sample_time
        (requeue (snd (move_to_processed sample_time sample_fs_processed_before
           (QUEUE_DIR @ [''Sprint Plan'']))) ''Sprint Plan'')
        (QUEUE_DIR @ [''Sprint Plan'']))
      = Inl DirectoryNotEmpty"
  by code_simp


text \<open>
  C7, amended. Take two successful calls of \<^verbatim>\<open>move_to_processed\<close> on queue folders of
  the same name, the processed root left alone in between, where either the name was
  free under the processed root before the first call or the two calls read different
  clock seconds. Then the two destinations are distinct entries of the processed root,
  the second is the name with the timestamp suffix, and after the second call the
  folder moved by the first is still at its destination with the content it was moved
  with, as is the folder moved by the second.
\<close>

theorem move_to_processed_twice:
  assumes c1: "move_to_processed t1 fs0 (QUEUE_DIR @ [n]) = (Inr d1, fs1)"
    and world: "lookup fs1' PROCESSED_DIR = lookup fs1 PROCESSED_DIR"
    and c2: "move_to_processed t2 fs1' (QUEUE_DIR @ [n]) = (Inr d2, fs2)"
    and fresh: "lookup fs0 (PROCESSED_DIR @ [n]) = None
                \<or> strftime_Ymd_HMS t1 \<noteq> strftime_Ymd_HMS t2"
  shows "d1 \<noteq> d2
    \<and> parent d1 = PROCESSED_DIR \<and> parent d2 = PROCESSED_DIR
    \<and> d2 = PROCESSED_DIR @ [n @ ''-'' @ strftime_Ymd_HMS t2]
    \<and> lookup fs1 d1 = lookup fs0 (QUEUE_DIR @ [n])
    \<and> lookup fs2 d1 = lookup fs0 (QUEUE_DIR @ [n])
    \<and> lookup fs2 d2 = lookup fs1' (QUEUE_DIR @ [n])"
proof -
  let ?P = "PROCESSED_DIR @ [n]"
  note first = move_to_processed_ok [OF c1]
  note second = move_to_processed_ok [OF c2]
  have below: "lookup fs1' (PROCESSED_DIR @ [x]) = lookup fs1 (PROCESSED_DIR @ [x])" for x
    by (simp add: lookup_append world)
  have src: "lookup fs0 (QUEUE_DIR @ [n]) \<noteq> None"
    by (rule move_to_processed_source_exists [OF c1])
  have taken1: "lookup fs1 ?P \<noteq> None"
  proof (cases "lookup fs0 ?P = None")
    case True
    with first(1) have "d1 = ?P" by simp
    with first(2) src show ?thesis by simp
  next
    case False
    with first(1) have "?P \<noteq> d1" by simp
    from first(4) [OF this] False show ?thesis by simp
  qed
  then have taken: "lookup fs1' ?P \<noteq> None"
    unfolding below .
  with second(1) have d2: "d2 = PROCESSED_DIR @ [n @ ''-'' @ strftime_Ymd_HMS t2]"
    by simp
  have ne: "d1 \<noteq> d2"
  proof (cases "lookup fs0 ?P = None")
    case True
    with first(1) d2 show ?thesis by simp
  next
    case False
    with fresh have "strftime_Ymd_HMS t1 \<noteq> strftime_Ymd_HMS t2" by simp
    with False first(1) d2 show ?thesis by simp
  qed
  obtain y where y: "d1 = PROCESSED_DIR @ [y]"
    using first(1) by (cases "lookup fs0 ?P = None") simp_all
  have "lookup fs2 d1 = lookup fs1' d1"
    using second(4) [of y] ne by (simp add: y)
  also have "\<dots> = lookup fs1 d1"
    unfolding y below ..
  also have "\<dots> = lookup fs0 (QUEUE_DIR @ [n])"
    by (rule first(2))
  finally have kept: "lookup fs2 d1 = lookup fs0 (QUEUE_DIR @ [n])" .
  have "parent d1 = PROCESSED_DIR" "parent d2 = PROCESSED_DIR"
    by (simp_all add: y d2 parent_def)
  with ne d2 first(2) kept second(2) show ?thesis
    by simp
qed

theorem move_to_processed_twice_witness:
  "fst (move_to_processed sample_time sample_fs (QUEUE_DIR @ [''Sprint Plan'']))
      = Inr (PROCESSED_DIR @ [''Sprint Plan''])
   \<and> lookup (requeue (snd (move_to_processed sample_time sample_fs
          (QUEUE_DIR @ [''Sprint Plan'']))) ''Sprint Plan'') PROCESSED_DIR
      = lookup (snd (move_to_processed sample_time sample_fs (QUEUE_DIR @ [''Sprint Plan''])))
          PROCESSED_DIR
   \<and> fst (move_to_processed sample_time
        (requeue (snd (move_to_processed sample_time sample_fs (QUEUE_DIR @ [''Sprint Plan''])))
           ''Sprint Plan'')
        (QUEUE_DIR @ [''Sprint Plan'']))
      = Inr (PROCESSED_DIR @ [''Sprint Plan-20261104-093000''])
   \<and> lookup sample_fs (PROCESSED_DIR @ [''Sprint Plan'']) = None
   \<and> lookup (snd (move_to_processed sample_time
        (requeue (snd (move_to_processed sample_time sample_fs (QUEUE_DIR @ [''Sprint Plan''])))
           ''Sprint Plan'')
        (QUEUE_DIR @ [''Sprint Plan'']))) (PROCESSED_DIR @ [''Sprint Plan''])
      = lookup sample_fs (QUEUE_DIR @ [''Sprint Plan''])"
proof -
  let ?q = "QUEUE_DIR @ [''Sprint Plan'']"
  let ?c1 = "move_to_processed sample_time sample_fs ?q"
  let ?fs1' = "requeue (snd ?c1) ''Sprint Plan''"
  let ?c2 = "move_to_processed sample_time ?fs1' ?q"
  have r1: "fst ?c1 = Inr (PROCESSED_DIR @ [''Sprint Plan''])"
    by code_simp
  have w: "lookup ?fs1' PROCESSED_DIR = lookup (snd ?c1) PROCESSED_DIR"
    by code_simp
  have r2: "fst ?c2 = Inr (PROCESSED_DIR @ [''Sprint Plan-20261104-093000''])"
    by code_simp
  have free: "lookup sample_fs (PROCESSED_DIR @ [''Sprint Plan'']) = None"
    by code_simp
  have c1: "?c1 = (Inr (PROCESSED_DIR @ [''Sprint Plan'']), snd ?c1)"
    using r1 by (metis prod.collapse)
  have c2: "?c2 = (Inr (PROCESSED_DIR @ [''Sprint Plan-20261104-093000'']), snd ?c2)"
    using r2 by (metis prod.collapse)
  from move_to_processed_twice [OF c1 w c2 disjI1 [OF free]]
  have "lookup (snd ?c2) (PROCESSED_DIR @ [''Sprint Plan'']) = lookup sample_fs ?q"
    by blast
  with r1 w r2 free show ?thesis
    by blast
qed

subsection \<open>Relocation only after full success\<close>

text \<open>
  C1. In every run of the production CLI that selects a queue folder, the folder is
  relocated only when \<^verbatim>\<open>process_folder\<close> counted every image of it a success (the
  total being positive and every progress line reading \<^verbatim>\<open>Completed\<close>); it is then
  gone from the queue and found, with its content, at the new location. When at least
  one image failed the folder is not relocated, and every run that does not relocate
  the folder leaves it in place under the queue root, with the content it had.
\<close>

theorem relocation_only_after_full_success:
  assumes run: "main lower c envs move_time fs = (result, fs')"
    and sel: "selected_folder c fs = Inr (Some folder)"
  shows "(relocated result \<longrightarrow>
            (\<exists>n progress fs1.
                process_folder lower envs fs folder (arg_model c) = (Inr (n, n), progress, fs1)
                \<and> 0 < n \<and> length progress = n \<and> (\<forall>ok \<in> set progress. ok))
            \<and> lookup fs' folder = None
            \<and> (\<exists>n loc. result = Inr (Complete n (Some loc))
                  \<and> lookup fs' loc = lookup fs folder))
    \<and> (process_folder lower envs fs folder (arg_model c) = (Inr (success, total_n), progress', fs1')
          \<and> success < total_n \<longrightarrow> \<not> relocated result)
    \<and> (\<not> relocated result \<longrightarrow>
          lookup fs' folder = lookup fs folder \<and> (\<exists>es. lookup fs' folder = Some (Dir es)))"
proof -
  from selected_folder_in_queue [OF sel] obtain q es where f: "folder = QUEUE_DIR @ [q]"
    and ex: "lookup fs folder = Some (Dir es)"
    by blast
  obtain r progress fs1 where pf:
    "process_folder lower envs fs folder (arg_model c) = (r, progress, fs1)"
    by (metis prod_cases3)
  have keep: "lookup fs1 folder = lookup fs folder"
    using process_folder_lookup_other [OF pf] queue_enhanced_apart(1,2) f by simp
  have np: "\<not> prefix folder PROCESSED_DIR"
    using f queue_enhanced_apart(3) by simp
  have b: "lookup fs' folder = lookup fs folder" if "\<not> relocated result"
    using that run keep move_to_processed_failure [OF _ np]
    by (auto simp: main_def sel pf split: if_splits sum.splits prod.splits)
  have a: "\<exists>n loc. r = Inr (n, n) \<and> 0 < n \<and> result = Inr (Complete n (Some loc))
      \<and> move_to_processed move_time fs1 folder = (Inr loc, fs')" if "relocated result"
    using that run
    by (auto simp: main_def sel pf split: if_splits sum.splits prod.splits)
  have a': "(\<exists>n progress fs1.
                process_folder lower envs fs folder (arg_model c) = (Inr (n, n), progress, fs1)
                \<and> 0 < n \<and> length progress = n \<and> (\<forall>ok \<in> set progress. ok))
            \<and> lookup fs' folder = None
            \<and> (\<exists>n loc. result = Inr (Complete n (Some loc))
                  \<and> lookup fs' loc = lookup fs folder)" if "relocated result"
  proof -
    from a [OF that] obtain n loc where r: "r = Inr (n, n)" and n: "0 < n"
      and res: "result = Inr (Complete n (Some loc))"
      and mv: "move_to_processed move_time fs1 (QUEUE_DIR @ [q]) = (Inr loc, fs')"
      unfolding f by blast
    from pf r have pf': "process_folder lower envs fs folder (arg_model c) = (Inr (n, n), progress, fs1)"
      by simp
    from process_folder_count [OF pf'] have len: "length progress = n"
      and "length (filter id progress) = length progress"
      by simp_all
    then have all: "\<forall>ok \<in> set progress. ok"
      using all_true_of_full_count by blast
    from move_to_processed_ok(2,3) [OF mv] keep f
    have "lookup fs' loc = lookup fs folder" "lookup fs' folder = None"
      by simp_all
    with pf' n len all res show ?thesis
      by blast
  qed
  have c: "\<not> relocated result"
    if "process_folder lower envs fs folder (arg_model c) = (Inr (success, total_n), progress', fs1')"
      and "success < total_n"
  proof
    assume "relocated result"
    from a [OF this] that pf show False
      by auto
  qed
  from a' b c ex show ?thesis
    by auto
qed

theorem relocation_only_after_full_success_witness:
  "selected_folder sample_cli sample_fs = Inr (Some (QUEUE_DIR @ [''Sprint Plan'']))
   \<and> fst (process_folder ascii_lower envs_second_fails sample_fs (QUEUE_DIR @ [''Sprint Plan''])
          (arg_model sample_cli)) = Inr (2, 3)
   \<and> \<not> relocated (fst (main ascii_lower sample_cli envs_second_fails sample_time sample_fs))
   \<and> lookup (snd (main ascii_lower sample_cli envs_second_fails sample_time sample_fs))
        (QUEUE_DIR @ [''Sprint Plan''])
      = lookup sample_fs (QUEUE_DIR @ [''Sprint Plan''])
   \<and> relocated (fst (main ascii_lower sample_cli (\<lambda>i. env_ok) sample_time sample_fs))
   \<and> lookup (snd (main ascii_lower sample_cli (\<lambda>i. env_ok) sample_time sample_fs))
        (QUEUE_DIR @ [''Sprint Plan'']) = None"
proof -
  let ?folder = "QUEUE_DIR @ [''Sprint Plan'']"
  let ?pf1 = "process_folder ascii_lower envs_second_fails sample_fs ?folder (arg_model sample_cli)"
  let ?m1 = "main ascii_lower sample_cli envs_second_fails sample_time sample_fs"
  let ?m2 = "main ascii_lower sample_cli (\<lambda>i. env_ok) sample_time sample_fs"
  have sel: "selected_folder sample_cli sample_fs = Inr (Some ?folder)"
    by code_simp
  have r1: "fst ?pf1 = Inr (2, 3)"
    by code_simp
  have moved: "relocated (fst ?m2)"
    by code_simp
  have pf1: "?pf1 = (Inr (2, 3), fst (snd ?pf1), snd (snd ?pf1))"
    using r1 by (metis prod.collapse)
  have run1: "?m1 = (fst ?m1, snd ?m1)"
    by simp
  have run2: "?m2 = (fst ?m2, snd ?m2)"
    by simp
  from relocation_only_after_full_success
    [OF run1 sel, where success = 2 and total_n = 3 and progress' = "fst (snd ?pf1)"
      and fs1' = "snd (snd ?pf1)"] pf1
  have "\<not> relocated (fst ?m1)" "lookup (snd ?m1) ?folder = lookup sample_fs ?folder"
    by simp_all
  moreover from relocation_only_after_full_success [OF run2 sel] moved
  have "lookup (snd ?m2) ?folder = None"
    by blast
  ultimately show ?thesis
    using sel r1 moved by blast
qed

end
